theory Spec2Isabelle
  imports Main "HOL-Library.Sublist" "HOL-Library.AList" "HOL-Library.Char_ord"
    "HOL-Library.List_Lexorder" "HOL-Library.Multiset"
begin

section \<open>The filesystem the program runs on\<close>

text \<open>
  \<^verbatim>\<open>publish.py\<close> works on \<^verbatim>\<open>pathlib.Path\<close> objects and asks the operating system about
  them. A path is the list of its components below \<^verbatim>\<open>/\<close>; the filesystem is an association
  list from the canonical path of an entry to its node, in directory-listing order. A
  regular file carries its modification time, a symbolic link its target as
  \<^verbatim>\<open>Path(os.readlink(p))\<close> parses it: whether it is absolute, and its components.
\<close>

type_synonym path = "string list"

datatype node = File nat | Dir | Link bool path

type_synonym fs = "(path \<times> node) list"

datatype error =
    FileExistsError | FileNotFoundError | NotADirectoryError | IsADirectoryError
  | InvalidArgument | TooManyLinks | ProgramError

text \<open>The names \<^verbatim>\<open>os.curdir\<close> and \<^verbatim>\<open>os.pardir\<close>.\<close>

definition curdir :: string where
  "curdir = ''.''"

definition pardir :: string where
  "pardir = ''..''"

text \<open>The root directory always exists; every other entry is looked up in the list.\<close>

definition lookup :: "fs \<Rightarrow> path \<Rightarrow> node option" where
  "lookup fs p = (if p = [] then Some Dir else map_of fs p)"

text \<open>
  Path resolution as the kernel does it: component by component from a directory
  \<open>cur\<close> that is already resolved, \<^verbatim>\<open>..\<close> going to the parent of the resolved
  directory, a symbolic link replaced by its target, at most \<open>fuel\<close> links followed.
\<close>

fun walk :: "nat \<Rightarrow> fs \<Rightarrow> path \<Rightarrow> string list \<Rightarrow> error + path" where
  "walk fuel fs cur [] = Inr cur"
| "walk fuel fs cur (c # cs) =
    (if lookup fs cur \<noteq> Some Dir then Inl NotADirectoryError
     else if c = curdir then walk fuel fs cur cs
     else if c = pardir then walk fuel fs (butlast cur) cs
     else (case lookup fs (cur @ [c]) of
             None \<Rightarrow> Inl FileNotFoundError
           | Some (Link ab tgt) \<Rightarrow>
               (case fuel of
                  0 \<Rightarrow> Inl TooManyLinks
                | Suc f \<Rightarrow> walk f fs (if ab then [] else cur) (tgt @ cs))
           | Some _ \<Rightarrow> walk fuel fs (cur @ [c]) cs))"

definition MAXSYMLINKS :: nat where
  "MAXSYMLINKS = 40"

text \<open>\<^verbatim>\<open>stat\<close> follows a link in the last component, \<^verbatim>\<open>lstat\<close> does not.\<close>

definition resolve :: "fs \<Rightarrow> path \<Rightarrow> error + path" where
  "resolve fs p = walk MAXSYMLINKS fs [] p"

definition lresolve :: "fs \<Rightarrow> path \<Rightarrow> error + path" where
  "lresolve fs p =
    (if p = [] \<or> last p = curdir \<or> last p = pardir then resolve fs p
     else (case resolve fs (butlast p) of
             Inl e \<Rightarrow> Inl e
           | Inr d \<Rightarrow> if lookup fs d = Some Dir then Inr (d @ [last p])
                      else Inl NotADirectoryError))"

definition stat :: "fs \<Rightarrow> path \<Rightarrow> node option" where
  "stat fs p = (case resolve fs p of Inl e \<Rightarrow> None | Inr q \<Rightarrow> lookup fs q)"

definition lstat :: "fs \<Rightarrow> path \<Rightarrow> node option" where
  "lstat fs p = (case lresolve fs p of Inl e \<Rightarrow> None | Inr q \<Rightarrow> lookup fs q)"

text \<open>\<^verbatim>\<open>Path.exists\<close>, \<^verbatim>\<open>Path.is_dir\<close> and \<^verbatim>\<open>Path.is_symlink\<close> answer False where the
  system call fails.\<close>

definition exists :: "fs \<Rightarrow> path \<Rightarrow> bool" where
  "exists fs p = (stat fs p \<noteq> None)"

definition is_dir :: "fs \<Rightarrow> path \<Rightarrow> bool" where
  "is_dir fs p = (stat fs p = Some Dir)"

fun is_link :: "node option \<Rightarrow> bool" where
  "is_link (Some (Link ab tgt)) = True"
| "is_link other = False"

definition is_symlink :: "fs \<Rightarrow> path \<Rightarrow> bool" where
  "is_symlink fs p = is_link (lstat fs p)"

subsection \<open>Names: \<^verbatim>\<open>PurePath.name\<close>, \<^verbatim>\<open>suffix\<close>, \<^verbatim>\<open>stem\<close>, \<^verbatim>\<open>with_suffix\<close>\<close>

definition name :: "path \<Rightarrow> string" where
  "name p = (if p = [] then [] else last p)"

definition parent :: "path \<Rightarrow> path" where
  "parent p = butlast p"

text \<open>\<^verbatim>\<open>str.rfind\<close>: the index of the last occurrence, or -1.\<close>

definition rfind :: "char \<Rightarrow> string \<Rightarrow> int" where
  "rfind c s =
    (if c \<in> set s then int (length s) - 1 - int (length (takeWhile (\<lambda>x. x \<noteq> c) (rev s)))
     else - 1)"

definition suffix_of :: "path \<Rightarrow> string" where
  "suffix_of p =
    (let nm = name p; i = rfind CHR ''.'' nm
     in if 0 < i \<and> i < int (length nm) - 1 then drop (nat i) nm else [])"

definition stem :: "path \<Rightarrow> string" where
  "stem p =
    (let nm = name p; i = rfind CHR ''.'' nm
     in if 0 < i \<and> i < int (length nm) - 1 then take (nat i) nm else nm)"

text \<open>\<^verbatim>\<open>str.lower\<close> on the ASCII letters; the bytes of other characters are left alone.\<close>

definition lower_char :: "char \<Rightarrow> char" where
  "lower_char c =
    (let n = (of_char c :: nat) in if 65 \<le> n \<and> n \<le> 90 then char_of (n + 32) else c)"

definition lower :: "string \<Rightarrow> string" where
  "lower s = map lower_char s"

section \<open>Path Classifier\<close>

datatype source_type = SOURCE_RAW | SOURCE_JPEG

definition classify :: "fs \<Rightarrow> path \<Rightarrow> source_type option" where
  "classify fs p =
    (if is_symlink fs p then
       (let ext = lower (suffix_of p)
        in if ext \<in> set [''.jpg'', ''.jpeg''] then Some SOURCE_JPEG
           else if ext \<in> set [''.nef'', ''.cr3''] then Some SOURCE_RAW
           else None)
     else None)"


section \<open>Operating-system calls\<close>

text \<open>An exception of the source is the value \<open>Inl e\<close>; \<open>bind_r\<close> propagates it.\<close>

definition bind_r :: "error + 'a \<Rightarrow> ('a \<Rightarrow> error + 'b) \<Rightarrow> error + 'b" where
  "bind_r r f = (case r of Inl e \<Rightarrow> Inl e | Inr x \<Rightarrow> f x)"

definition mkdir :: "path \<Rightarrow> fs \<Rightarrow> error + fs" where
  "mkdir p fs =
    (case lresolve fs p of
       Inl e \<Rightarrow> Inl e
     | Inr q \<Rightarrow> (case lookup fs q of
                   Some n \<Rightarrow> Inl FileExistsError
                 | None \<Rightarrow> Inr (AList.update q Dir fs)))"

definition symlink_to :: "path \<Rightarrow> bool \<times> path \<Rightarrow> fs \<Rightarrow> error + fs" where
  "symlink_to p target fs =
    (case lresolve fs p of
       Inl e \<Rightarrow> Inl e
     | Inr q \<Rightarrow> (case lookup fs q of
                   Some n \<Rightarrow> Inl FileExistsError
                 | None \<Rightarrow> Inr (AList.update q (Link (fst target) (snd target)) fs)))"

definition unlink :: "path \<Rightarrow> fs \<Rightarrow> error + fs" where
  "unlink p fs =
    (case lresolve fs p of
       Inl e \<Rightarrow> Inl e
     | Inr q \<Rightarrow> (case lookup fs q of
                   None \<Rightarrow> Inl FileNotFoundError
                 | Some Dir \<Rightarrow> Inl IsADirectoryError
                 | Some n \<Rightarrow> Inr (AList.delete q fs)))"

definition readlink :: "fs \<Rightarrow> path \<Rightarrow> error + bool \<times> path" where
  "readlink fs p =
    (case lresolve fs p of
       Inl e \<Rightarrow> Inl e
     | Inr q \<Rightarrow> (case lookup fs q of
                   None \<Rightarrow> Inl FileNotFoundError
                 | Some (Link ab tgt) \<Rightarrow> Inr (ab, tgt)
                 | Some n \<Rightarrow> Inl InvalidArgument))"

text \<open>
  \<^verbatim>\<open>p.stat().st_mtime\<close>. The tree records the modification time of a regular file. The
  time of a directory is kept by the system and changes with every entry made in the
  directory; it is a parameter of the model: \<open>dt fs q\<close> is the modification time of the
  directory \<open>q\<close> in the state \<open>fs\<close>. (The path is resolved, so the node is a regular
  file or a directory.)
\<close>

type_synonym dir_times = "fs \<Rightarrow> path \<Rightarrow> nat"

definition st_mtime :: "dir_times \<Rightarrow> fs \<Rightarrow> path \<Rightarrow> error + nat" where
  "st_mtime dt fs p =
    (case resolve fs p of
       Inl e \<Rightarrow> Inl e
     | Inr q \<Rightarrow> (case lookup fs q of
                   None \<Rightarrow> Inl FileNotFoundError
                 | Some (File t) \<Rightarrow> Inr t
                 | Some n \<Rightarrow> Inr (dt fs q)))"

text \<open>The names in a resolved directory, in listing order (\<^verbatim>\<open>scandir\<close> never lists
  \<^verbatim>\<open>.\<close> and \<^verbatim>\<open>..\<close>).\<close>

definition listdir :: "fs \<Rightarrow> path \<Rightarrow> string list" where
  "listdir fs d =
    remdups (filter (\<lambda>n. n \<noteq> curdir \<and> n \<noteq> pardir)
      (map (\<lambda>e. last (fst e)) (filter (\<lambda>e. fst e \<noteq> [] \<and> butlast (fst e) = d) fs)))"

text \<open>
  \<^verbatim>\<open>Path.glob\<close> with a one-component pattern: nothing unless the path is a directory,
  else the children whose name matches, each as \<^verbatim>\<open>p / name\<close>.
\<close>

definition glob :: "(string \<Rightarrow> bool) \<Rightarrow> fs \<Rightarrow> path \<Rightarrow> path list" where
  "glob pat fs p =
    (case resolve fs p of
       Inl e \<Rightarrow> []
     | Inr d \<Rightarrow> if lookup fs d = Some Dir then map (\<lambda>n. p @ [n]) (filter pat (listdir fs d))
                else [])"

text \<open>The patterns \<^verbatim>\<open>*\<close>, \<^verbatim>\<open>*_small*\<close> and \<^verbatim>\<open>*.*\<close> of \<^verbatim>\<open>fnmatch\<close>.\<close>

definition match_star :: "string \<Rightarrow> bool" where
  "match_star n = True"

definition match_small :: "string \<Rightarrow> bool" where
  "match_small n = sublist ''_small'' n"

definition match_dotted :: "string \<Rightarrow> bool" where
  "match_dotted n = (CHR ''.'' \<in> set n)"

text \<open>\<^verbatim>\<open>Path.iterdir\<close> raises where the path is no directory.\<close>

definition iterdir :: "fs \<Rightarrow> path \<Rightarrow> error + path list" where
  "iterdir fs p =
    (case resolve fs p of
       Inl e \<Rightarrow> Inl e
     | Inr d \<Rightarrow> if lookup fs d = Some Dir then Inr (map (\<lambda>n. p @ [n]) (listdir fs d))
                else Inl NotADirectoryError)"

text \<open>
  \<^verbatim>\<open>rootdir.glob('**/*.*')\<close>: the entries with a dot in their name in the root and in every
  directory below it that is reached through directories only (the recursion does not
  enter a symbolic link).
\<close>

definition under_real :: "fs \<Rightarrow> path \<Rightarrow> path \<Rightarrow> bool" where
  "under_real fs r p =
    (strict_prefix r p \<and>
     list_all (\<lambda>q. length r \<le> length q \<and> q \<noteq> p \<longrightarrow> lookup fs q = Some Dir) (prefixes p))"

definition rglob_dotted :: "fs \<Rightarrow> path \<Rightarrow> path list" where
  "rglob_dotted fs root =
    (case resolve fs root of
       Inl e \<Rightarrow> []
     | Inr r \<Rightarrow>
         if lookup fs r = Some Dir
         then remdups (map (\<lambda>e. root @ drop (length r) (fst e))
                (filter (\<lambda>e. under_real fs r (fst e) \<and> match_dotted (last (fst e))) fs))
         else [])"

section \<open>Source Image\<close>

datatype source = RawSourceImage path | JpegSourceImage path

fun source_path :: "source \<Rightarrow> path" where
  "source_path (RawSourceImage p) = p"
| "source_path (JpegSourceImage p) = p"

definition with_suffix :: "path \<Rightarrow> string \<Rightarrow> path" where
  "with_suffix p sfx =
    (let nm = name p; old_suffix = suffix_of p
     in parent p @ [if old_suffix = [] then nm @ sfx
                    else take (length nm - length old_suffix) nm @ sfx])"

text \<open>\<^verbatim>\<open>p.parent / nm\<close>, a path beside \<open>p\<close>.\<close>

definition sibling :: "path \<Rightarrow> string \<Rightarrow> path" where
  "sibling p nm = parent p @ [nm]"

text \<open>The loops \<^verbatim>\<open>for ...: if p1.exists(): return p1\<close>.\<close>

fun first_existing :: "fs \<Rightarrow> path list \<Rightarrow> path option" where
  "first_existing fs [] = None"
| "first_existing fs (p1 # ps) = (if exists fs p1 then Some p1 else first_existing fs ps)"

fun large :: "fs \<Rightarrow> source \<Rightarrow> path" where
  "large fs (RawSourceImage p) =
    (case first_existing fs (map (with_suffix p) [''.JPG'', ''.jpg'']) of
       Some p1 \<Rightarrow> p1
     | None \<Rightarrow> with_suffix p ''.JPG'')"
| "large fs (JpegSourceImage p) =
    (case first_existing fs
            (map (\<lambda>ext. sibling p (stem p @ ''_processed.'' @ ext))
               [''jpg'', ''JPG'', ''jpeg'', ''JPEG'']) of
       Some p1 \<Rightarrow> p1
     | None \<Rightarrow> p)"

fun small :: "source \<Rightarrow> path" where
  "small (RawSourceImage p) = sibling p (stem p @ ''_small.jpg'')"
| "small (JpegSourceImage p) = sibling p (stem p @ ''_small.jpg'')"

section \<open>Directory\<close>

record directory =
  rootdir :: path
  known_subdirs :: "string list"
  sources :: "source list"

fun scan_sources :: "fs \<Rightarrow> path list \<Rightarrow> source list" where
  "scan_sources fs [] = []"
| "scan_sources fs (p # ps) =
    (if \<not> is_dir fs p then
       (case classify fs p of
          Some SOURCE_RAW \<Rightarrow> RawSourceImage p # scan_sources fs ps
        | Some SOURCE_JPEG \<Rightarrow> JpegSourceImage p # scan_sources fs ps
        | None \<Rightarrow> scan_sources fs ps)
     else scan_sources fs ps)"

definition Directory :: "fs \<Rightarrow> path \<Rightarrow> string list \<Rightarrow> directory" where
  "Directory fs root subdirs =
    \<lparr>rootdir = root, known_subdirs = subdirs,
     sources = scan_sources fs (glob match_star fs root)\<rparr>"

subsection \<open>Read-only views\<close>

definition existing_small :: "directory \<Rightarrow> fs \<Rightarrow> path list" where
  "existing_small d fs = filter (exists fs) (map small (sources d))"

definition published :: string where
  "published = ''published''"

definition published_dir :: "path \<Rightarrow> path" where
  "published_dir subdir = subdir @ [published]"

text \<open>The set \<^verbatim>\<open>managed_small\<close> of one service directory, as the list of its names.\<close>

definition managed_small :: "fs \<Rightarrow> path \<Rightarrow> string list" where
  "managed_small fs subdir =
    map name (glob match_small fs subdir) @
    (if exists fs (published_dir subdir) then map name (glob match_small fs (published_dir subdir))
     else [])"

text \<open>\<^verbatim>\<open>all_small - managed_small\<close>; a Python set is a list without repetition here.\<close>

definition new_names :: "fs \<Rightarrow> string list \<Rightarrow> path \<Rightarrow> string list" where
  "new_names fs all_small subdir = filter (\<lambda>n. n \<notin> set (managed_small fs subdir)) all_small"

fun new_small_images_from :: "fs \<Rightarrow> path \<Rightarrow> string list \<Rightarrow> string list \<Rightarrow> (path \<times> string list) list" where
  "new_small_images_from fs root all_small [] = []"
| "new_small_images_from fs root all_small (s # ss) =
    (let subdir = root @ [s]
     in if \<not> exists fs subdir then new_small_images_from fs root all_small ss
        else (let new = new_names fs all_small subdir
              in if new \<noteq> [] then (subdir, new) # new_small_images_from fs root all_small ss
                 else new_small_images_from fs root all_small ss))"

definition new_small_images :: "directory \<Rightarrow> fs \<Rightarrow> (path \<times> string list) list" where
  "new_small_images d fs =
    new_small_images_from fs (rootdir d) (remdups (map name (existing_small d fs))) (known_subdirs d)"


section \<open>Reconciler: the six fixup steps\<close>

text \<open>
  The directory of a service is \<^verbatim>\<open>rootdir / subdir\<close>, where \<^verbatim>\<open>subdir\<close> is a name of the
  configuration. For a name of one component (not empty, not \<^verbatim>\<open>.\<close>, without a slash)
  pathlib's join appends the name, and this is how the steps below join it:
  \<open>root @ [s]\<close>. A name of several components, an empty name or \<^verbatim>\<open>.\<close> is parsed by
  pathlib into another path; the properties of the steps that depend on the join are
  stated for the names that are \<open>single_component\<close>.
\<close>

definition single_component :: "string \<Rightarrow> bool" where
  "single_component s = (s \<noteq> [] \<and> s \<noteq> curdir \<and> CHR ''/'' \<notin> set s)"

subsection \<open>Step 1: \<^verbatim>\<open>__add_missing_subdirs\<close>\<close>

text \<open>
  \<^verbatim>\<open>missing_subdirs\<close> is a generator: the test for \<^verbatim>\<open>published\<close> runs after the
  \<^verbatim>\<open>mkdir\<close> of the service directory that the loop body has just made.
\<close>

fun add_missing_subdirs_loop :: "path \<Rightarrow> string list \<Rightarrow> fs \<Rightarrow> error + fs" where
  "add_missing_subdirs_loop root [] fs = Inr fs"
| "add_missing_subdirs_loop root (s # ss) fs =
    bind_r (if \<not> exists fs (root @ [s]) then mkdir (root @ [s]) fs else Inr fs)
      (\<lambda>fs1. bind_r (if \<not> exists fs1 (published_dir (root @ [s]))
                      then mkdir (published_dir (root @ [s])) fs1 else Inr fs1)
        (\<lambda>fs2. add_missing_subdirs_loop root ss fs2))"

definition add_missing_subdirs :: "directory \<Rightarrow> fs \<Rightarrow> error + fs" where
  "add_missing_subdirs d fs = add_missing_subdirs_loop (rootdir d) (known_subdirs d) fs"

subsection \<open>Step 2: \<^verbatim>\<open>__create_missing_small_images\<close>\<close>

text \<open>
  The image-resize collaborator is the command run by \<^verbatim>\<open>os.system\<close>: given the input
  path, the output path and the width it returns an exit status and the filesystem it
  leaves. It is a parameter of the model.
\<close>

type_synonym resizer = "path \<Rightarrow> path \<Rightarrow> nat \<Rightarrow> fs \<Rightarrow> int \<times> fs"

definition SMALL_JPEG_WIDTH :: nat where
  "SMALL_JPEG_WIDTH = 1024"

datatype action = CREATE | UPDATE

definition small_action :: "dir_times \<Rightarrow> fs \<Rightarrow> path \<Rightarrow> path \<Rightarrow> error + action option" where
  "small_action dt fs lg sm =
    (if exists fs sm then
       bind_r (st_mtime dt fs sm) (\<lambda>ts. bind_r (st_mtime dt fs lg)
         (\<lambda>tl. Inr (if ts < tl then Some UPDATE else None)))
     else Inr (Some CREATE))"

definition create_small_image :: "dir_times \<Rightarrow> resizer \<Rightarrow> source \<Rightarrow> fs \<Rightarrow> error + fs" where
  "create_small_image dt resize src fs =
    (let lg = large fs src; sm = small src
     in if \<not> exists fs lg then Inr fs
        else bind_r (small_action dt fs lg sm)
          (\<lambda>a. case a of
                 None \<Rightarrow> Inr fs
               | Some act \<Rightarrow> Inr (snd (resize lg sm SMALL_JPEG_WIDTH fs))))"

fun create_missing_small_images_loop ::
    "dir_times \<Rightarrow> resizer \<Rightarrow> source list \<Rightarrow> fs \<Rightarrow> error + fs" where
  "create_missing_small_images_loop dt resize [] fs = Inr fs"
| "create_missing_small_images_loop dt resize (src # srcs) fs =
    bind_r (create_small_image dt resize src fs) (create_missing_small_images_loop dt resize srcs)"

definition create_missing_small_images ::
    "dir_times \<Rightarrow> resizer \<Rightarrow> directory \<Rightarrow> fs \<Rightarrow> error + fs" where
  "create_missing_small_images dt resize d fs =
    create_missing_small_images_loop dt resize (sources d) fs"

subsection \<open>Step 3: \<^verbatim>\<open>__add_new_small_files\<close>\<close>

fun add_links :: "path \<Rightarrow> string list \<Rightarrow> fs \<Rightarrow> error + fs" where
  "add_links subdir [] fs = Inr fs"
| "add_links subdir (n # ns) fs =
    bind_r (symlink_to (subdir @ [n]) (False, [pardir, n]) fs) (add_links subdir ns)"

text \<open>
  One turn of the generator \<^verbatim>\<open>new_small_images\<close> with the loop body that consumes it:
  \<^verbatim>\<open>managed_small\<close> is read from the filesystem as the earlier services left it.
\<close>

definition add_new_for_service :: "string list \<Rightarrow> path \<Rightarrow> fs \<Rightarrow> error + fs" where
  "add_new_for_service all_small subdir fs =
    (if \<not> exists fs subdir then Inr fs
     else (let new = new_names fs all_small subdir
           in if new \<noteq> [] then add_links subdir new fs else Inr fs))"

fun add_new_small_files_loop :: "path \<Rightarrow> string list \<Rightarrow> string list \<Rightarrow> fs \<Rightarrow> error + fs" where
  "add_new_small_files_loop root all_small [] fs = Inr fs"
| "add_new_small_files_loop root all_small (s # ss) fs =
    bind_r (add_new_for_service all_small (root @ [s]) fs)
      (add_new_small_files_loop root all_small ss)"

definition add_new_small_files :: "directory \<Rightarrow> fs \<Rightarrow> error + fs" where
  "add_new_small_files d fs =
    add_new_small_files_loop (rootdir d) (remdups (map name (existing_small d fs)))
      (known_subdirs d) fs"

subsection \<open>Step 4: \<^verbatim>\<open>__fixup_source_photos_links\<close>\<close>

definition fixup_source_link :: "path \<Rightarrow> fs \<Rightarrow> error + fs" where
  "fixup_source_link p fs =
    bind_r (readlink fs p)
      (\<lambda>link. if \<not> fst link then Inr fs
              else bind_r (unlink p fs) (symlink_to p (False, [pardir, name p])))"

fun fixup_source_photos_links_loop :: "source list \<Rightarrow> fs \<Rightarrow> error + fs" where
  "fixup_source_photos_links_loop [] fs = Inr fs"
| "fixup_source_photos_links_loop (src # srcs) fs =
    bind_r (fixup_source_link (source_path src) fs) (fixup_source_photos_links_loop srcs)"

definition fixup_source_photos_links :: "directory \<Rightarrow> fs \<Rightarrow> error + fs" where
  "fixup_source_photos_links d fs = fixup_source_photos_links_loop (sources d) fs"

subsection \<open>Step 5: \<^verbatim>\<open>__fixup_published_links\<close>\<close>

text \<open>\<^verbatim>\<open>path.parent / link\<close>: an absolute right operand replaces the left one.\<close>

definition join_link :: "path \<Rightarrow> bool \<times> path \<Rightarrow> path" where
  "join_link base link = (if fst link then snd link else base @ snd link)"

definition fixup_published_link :: "path \<Rightarrow> fs \<Rightarrow> error + fs" where
  "fixup_published_link p fs =
    bind_r (readlink fs p)
      (\<lambda>link. if exists fs (join_link (parent p) link) then Inr fs
              else bind_r (unlink p fs) (symlink_to p (False, [pardir, pardir, name p])))"

fun fixup_published_list :: "path list \<Rightarrow> fs \<Rightarrow> error + fs" where
  "fixup_published_list [] fs = Inr fs"
| "fixup_published_list (p # ps) fs =
    bind_r (fixup_published_link p fs) (fixup_published_list ps)"

text \<open>
  \<^verbatim>\<open>published_small\<close> is a generator too: a \<^verbatim>\<open>published\<close> directory is listed when the
  loop reaches it, after the links of the earlier services have been repaired.
\<close>

fun fixup_published_links_loop :: "path \<Rightarrow> string list \<Rightarrow> fs \<Rightarrow> error + fs" where
  "fixup_published_links_loop root [] fs = Inr fs"
| "fixup_published_links_loop root (s # ss) fs =
    (let d = published_dir (root @ [s])
     in if \<not> exists fs d then fixup_published_links_loop root ss fs
        else bind_r (fixup_published_list (glob match_small fs d) fs)
               (fixup_published_links_loop root ss))"

definition fixup_published_links :: "directory \<Rightarrow> fs \<Rightarrow> error + fs" where
  "fixup_published_links d fs = fixup_published_links_loop (rootdir d) (known_subdirs d) fs"

definition published_small :: "directory \<Rightarrow> fs \<Rightarrow> path list" where
  "published_small d fs =
    concat (map (\<lambda>s. let p = published_dir (rootdir d @ [s])
                     in if \<not> exists fs p then [] else glob match_small fs p)
              (known_subdirs d))"

subsection \<open>Step 6: \<^verbatim>\<open>__add_files_to_repository\<close>\<close>

text \<open>
  The version-control collaborator is a parameter: \<open>git_add path g\<close> is
  \<^verbatim>\<open>git.add_file(path)\<close> on the collaborator's state \<open>g\<close>; it raises
  \<^verbatim>\<open>ProgramError\<close> where the command fails. It does not touch the working tree.
\<close>

fun add_files_loop :: "(path \<Rightarrow> 'g \<Rightarrow> error + 'g) \<Rightarrow> fs \<Rightarrow> path list \<Rightarrow> 'g \<Rightarrow> error + 'g" where
  "add_files_loop git_add fs [] g = Inr g"
| "add_files_loop git_add fs (p # ps) g =
    (if is_symlink fs p then bind_r (git_add p g) (add_files_loop git_add fs ps)
     else add_files_loop git_add fs ps g)"

definition add_files_to_repository ::
    "(path \<Rightarrow> 'g \<Rightarrow> error + 'g) \<Rightarrow> directory \<Rightarrow> fs \<Rightarrow> 'g \<Rightarrow> error + 'g" where
  "add_files_to_repository git_add d fs g =
    add_files_loop git_add fs (rglob_dotted fs (rootdir d)) g"

subsection \<open>\<^verbatim>\<open>Directory.action_fixup\<close>\<close>

definition action_fixup ::
    "dir_times \<Rightarrow> resizer \<Rightarrow> (path \<Rightarrow> 'g \<Rightarrow> error + 'g) \<Rightarrow> directory \<Rightarrow> fs \<times> 'g \<Rightarrow>
     error + fs \<times> 'g" where
  "action_fixup dt resize git_add d st =
    bind_r (add_missing_subdirs d (fst st)) (\<lambda>fs1.
    bind_r (create_missing_small_images dt resize d fs1) (\<lambda>fs2.
    bind_r (add_new_small_files d fs2) (\<lambda>fs3.
    bind_r (fixup_source_photos_links d fs3) (\<lambda>fs4.
    bind_r (fixup_published_links d fs4) (\<lambda>fs5.
    bind_r (add_files_to_repository git_add d fs5 (snd st)) (\<lambda>g. Inr (fs5, g)))))))"

text \<open>One run of the tool on one working directory: the snapshot is built by scanning,
  then reconciled (\<^verbatim>\<open>p = Directory(workdir, services); p.action_fixup(git)\<close>).\<close>

definition fixup_run ::
    "dir_times \<Rightarrow> resizer \<Rightarrow> (path \<Rightarrow> 'g \<Rightarrow> error + 'g) \<Rightarrow> path \<Rightarrow> string list \<Rightarrow>
     fs \<times> 'g \<Rightarrow> error + fs \<times> 'g" where
  "fixup_run dt resize git_add root subdirs st =
    action_fixup dt resize git_add (Directory (fst st) root subdirs) st"

section \<open>Other actions\<close>

text \<open>\<^verbatim>\<open>action_not_published\<close>: the value is the list of the paths printed.\<close>

definition action_not_published :: "directory \<Rightarrow> string \<Rightarrow> fs \<Rightarrow> path list" where
  "action_not_published d service fs =
    (let p = rootdir d @ [service]
     in if \<not> exists fs p then [] else filter (is_symlink fs) (glob match_star fs p))"

section \<open>Workdir Discovery\<close>

definition months :: "string list" where
  "months = [''01'', ''02'', ''03'', ''04'', ''05'', ''06'', ''07'', ''08'', ''09'', ''10'', ''11'', ''12'']"

definition is_digit :: "char \<Rightarrow> bool" where
  "is_digit c = (CHR ''0'' \<le> c \<and> c \<le> CHR ''9'')"

definition date_shape :: "string \<Rightarrow> bool" where
  "date_shape s =
    (case s of
       [y1, y2, y3, y4, h1, m1, m2, h2, d1, d2] \<Rightarrow>
         list_all is_digit [y1, y2, y3, y4, m1, m2, d1, d2] \<and> h1 = CHR ''-'' \<and> h2 = CHR ''-''
     | _ \<Rightarrow> False)"

text \<open>
  \<^verbatim>\<open>re.match("^[0-9]{4}-[0-9]{2}-[0-9]{2}$", name)\<close>: in Python \<^verbatim>\<open>$\<close> matches at the end
  of the string and also before a newline that ends it.
\<close>

definition date_match :: "string \<Rightarrow> bool" where
  "date_match s = (date_shape s \<or> (s \<noteq> [] \<and> last s = CHR 0x0A \<and> date_shape (butlast s)))"

fun roots :: "fs \<Rightarrow> path list \<Rightarrow> error + path list" where
  "roots fs [] = Inr []"
| "roots fs (workdir # ws) =
    bind_r (iterdir fs workdir)
      (\<lambda>ps. bind_r (roots fs ws) (\<lambda>rs. Inr (filter (\<lambda>p. date_match (name p)) ps @ rs)))"

fun letter_roots :: "fs \<Rightarrow> path \<Rightarrow> string \<Rightarrow> path list" where
  "letter_roots fs p [] = []"
| "letter_roots fs p (letter # ls) =
    (if exists fs (p @ [[letter]]) then (p @ [[letter]]) # letter_roots fs p ls
     else letter_roots fs p ls)"

text \<open>The flag \<^verbatim>\<open>subdirs\<close> is set exactly when a lettered sub-root was yielded.\<close>

definition date_root_yield :: "fs \<Rightarrow> path \<Rightarrow> path list" where
  "date_root_yield fs p =
    (let ys = letter_roots fs p ''abcdefgh'' in if ys = [] then [p] else ys)"

definition month_workdirs :: "fs \<Rightarrow> path \<Rightarrow> path list" where
  "month_workdirs fs p =
    (let workdirs = filter (exists fs) (map (\<lambda>month. p @ [month]) months)
     in if workdirs = [] then [p] else workdirs)"

text \<open>\<^verbatim>\<open>Application.all_workdirs\<close> and \<^verbatim>\<open>Application.workdirs\<close> on one state of the
  filesystem.\<close>

definition all_workdirs :: "fs \<Rightarrow> path \<Rightarrow> error + path list" where
  "all_workdirs fs p =
    bind_r (roots fs (month_workdirs fs p))
      (\<lambda>rs. Inr (concat (map (date_root_yield fs) (sort rs))))"

definition workdirs :: "fs \<Rightarrow> path \<Rightarrow> error + path list" where
  "workdirs fs p =
    bind_r (all_workdirs fs p)
      (\<lambda>ps. Inr (filter (exists fs) (map (\<lambda>q. q @ [''publish'']) ps)))"

text \<open>The date roots of a state, in the words of the specification: the entries with a
  date name in the month buckets that exist, or in the root when there is none; and what
  discovery yields from them.\<close>

definition date_roots :: "fs \<Rightarrow> path \<Rightarrow> path list" where
  "date_roots fs p =
    concat (map (\<lambda>w. filter (\<lambda>q. date_match (name q)) (glob match_star fs w))
      (month_workdirs fs p))"

definition discovered :: "fs \<Rightarrow> path \<Rightarrow> path list" where
  "discovered fs p = concat (map (date_root_yield fs) (sort (date_roots fs p)))"

section \<open>Predicates on states\<close>

text \<open>A path of real directories: every prefix is a directory of the filesystem, none is
  reached through a symbolic link, and no component is \<^verbatim>\<open>.\<close> or \<^verbatim>\<open>..\<close>.\<close>

definition plain_name :: "string \<Rightarrow> bool" where
  "plain_name n = (n \<noteq> curdir \<and> n \<noteq> pardir)"

definition real_dir :: "fs \<Rightarrow> path \<Rightarrow> bool" where
  "real_dir fs p = (list_all (\<lambda>q. lookup fs q = Some Dir) (prefixes p) \<and> list_all plain_name p)"

fun is_abs_link :: "node option \<Rightarrow> bool" where
  "is_abs_link (Some (Link True tgt)) = True"
| "is_abs_link other = False"

text \<open>The filesystem after the source-link repair, as the specification words it: the
  links among \<open>ps\<close> with an absolute target point one level up, all else is as before.\<close>

definition repaired :: "fs \<Rightarrow> path set \<Rightarrow> path \<Rightarrow> node option" where
  "repaired fs ps q =
    (if q \<in> ps \<and> is_abs_link (lookup fs q) then Some (Link False [pardir, name q])
     else lookup fs q)"

text \<open>The names matching \<^verbatim>\<open>*_small*\<close> that a directory holds.\<close>

definition entries :: "fs \<Rightarrow> path \<Rightarrow> string set" where
  "entries fs d = {n. plain_name n \<and> match_small n \<and> lookup fs (d @ [n]) \<noteq> None}"

text \<open>A filesystem, as a lookup function, with relative one-level-up links added under
  the names \<open>ns\<close> of a directory.\<close>

definition with_links :: "(path \<Rightarrow> node option) \<Rightarrow> path \<Rightarrow> string set \<Rightarrow> path \<Rightarrow> node option" where
  "with_links base sd ns q =
    (if q \<in> (\<lambda>n. sd @ [n]) ` ns then Some (Link False [pardir, name q]) else base q)"

text \<open>What distribution has to add for one service, and the filesystem after the
  distribution step, in the words of the specification: for every service directory that
  exists, a link for each existing preview name that the directory does not manage.\<close>

definition new_set :: "fs \<Rightarrow> path \<Rightarrow> string \<Rightarrow> string set \<Rightarrow> string set" where
  "new_set fs root s A =
    (if lookup fs (root @ [s]) = Some Dir then A - set (managed_small fs (root @ [s])) else {})"

definition distributed :: "fs \<Rightarrow> path \<Rightarrow> string list \<Rightarrow> string set \<Rightarrow> path \<Rightarrow> node option" where
  "distributed fs root subs A q =
    (if \<exists>s\<in>set subs. q \<in> (\<lambda>n. root @ [s, n]) ` new_set fs root s A
     then Some (Link False [pardir, name q]) else lookup fs q)"

text \<open>The service directories of a working directory are real directories or absent, and
  no \<^verbatim>\<open>published\<close> entry is a symbolic link.\<close>

definition services_ok :: "fs \<Rightarrow> path \<Rightarrow> string list \<Rightarrow> bool" where
  "services_ok fs root subs =
    list_all (\<lambda>s. plain_name s \<and>
        (lookup fs (root @ [s]) = None \<or> lookup fs (root @ [s]) = Some Dir) \<and>
        \<not> is_link (lookup fs (published_dir (root @ [s])))) subs"

text \<open>Names of previews: they match \<^verbatim>\<open>*_small*\<close> and are neither \<^verbatim>\<open>.\<close> nor \<^verbatim>\<open>..\<close>.\<close>

definition small_names :: "string set \<Rightarrow> bool" where
  "small_names A = (\<forall>n\<in>A. plain_name n \<and> match_small n)"









text \<open>A filesystem, as a lookup function, with directories made at the paths of \<open>D\<close>
  that were absent.\<close>

definition with_dirs :: "(path \<Rightarrow> node option) \<Rightarrow> path set \<Rightarrow> path \<Rightarrow> node option" where
  "with_dirs base D q = (if q \<in> D \<and> base q = None then Some Dir else base q)"

text \<open>The paths that step 1 looks at: the service directories and their
  \<^verbatim>\<open>published\<close> children.\<close>

definition subdir_paths :: "path \<Rightarrow> string list \<Rightarrow> path set" where
  "subdir_paths root subs = (\<lambda>s. root @ [s]) ` set subs \<union> (\<lambda>s. published_dir (root @ [s])) ` set subs"

text \<open>Nothing is recorded under a service directory that is absent.\<close>

definition no_orphans :: "fs \<Rightarrow> path \<Rightarrow> string list \<Rightarrow> bool" where
  "no_orphans fs root subs =
    list_all (\<lambda>s. lookup fs (root @ [s]) = None \<longrightarrow> lookup fs (published_dir (root @ [s])) = None) subs"

text \<open>\<^verbatim>\<open>DummyGit.add_file\<close> does nothing.\<close>

definition git_dummy :: "path \<Rightarrow> unit \<Rightarrow> error + unit" where
  "git_dummy p g = Inr g"

text \<open>What a run of the resize command may change: entries among \<open>W\<close> that were absent or
  regular files, and are regular files afterwards.\<close>

definition files_written :: "path set \<Rightarrow> fs \<Rightarrow> fs \<Rightarrow> bool" where
  "files_written W fs fs' =
    (\<forall>q. lookup fs' q = lookup fs q \<or>
         (q \<in> W \<and> (lookup fs q = None \<or> (\<exists>t. lookup fs q = Some (File t))) \<and>
          (\<exists>t. lookup fs' q = Some (File t))))"



text \<open>
  The decision of the materialization step in the words of the specification: a preview
  is due for a source when its large artifact exists and the preview is absent, or exists
  with a modification time strictly less than that of the large artifact. The step
  \<open>materialize\<close>s the sources in order: where a preview is due the collaborator is run
  on (large, small, 1024), elsewhere nothing is done.
\<close>

definition older :: "dir_times \<Rightarrow> fs \<Rightarrow> path \<Rightarrow> path \<Rightarrow> bool" where
  "older dt fs a b =
    (case st_mtime dt fs a of
       Inl e \<Rightarrow> False
     | Inr ta \<Rightarrow> (case st_mtime dt fs b of Inl e \<Rightarrow> False | Inr tb \<Rightarrow> ta < tb))"

definition preview_due :: "dir_times \<Rightarrow> fs \<Rightarrow> source \<Rightarrow> bool" where
  "preview_due dt fs src =
    (exists fs (large fs src) \<and>
     (\<not> exists fs (small src) \<or> older dt fs (small src) (large fs src)))"

definition materialize :: "dir_times \<Rightarrow> resizer \<Rightarrow> source \<Rightarrow> fs \<Rightarrow> fs" where
  "materialize dt resize src fs =
    (if preview_due dt fs src then snd (resize (large fs src) (small src) 1024 fs) else fs)"

section \<open>A collaborator for the examples\<close>

text \<open>
  Modelled from the spec: the image-resize command (ImageMagick's \<^verbatim>\<open>convert\<close>, not part of
  the repository). It reads the input, which has to be a regular file, and writes the
  output as a regular file beside it, creating or overwriting it; the file it writes is
  not older than the file it read. Any other case is a failure with a non-zero status
  that leaves the filesystem alone. \<open>now\<close> is the time of the run.
\<close>

definition convert_at :: "nat \<Rightarrow> resizer" where
  "convert_at now lg sm width fs =
    (case stat fs lg of
       Some (File tlg) \<Rightarrow>
        (case lresolve fs sm of
           Inl e \<Rightarrow> (1, fs)
         | Inr q \<Rightarrow> (case lookup fs q of
                       None \<Rightarrow> (0, AList.update q (File (max now tlg)) fs)
                     | Some (File t) \<Rightarrow> (0, AList.update q (File (max now tlg)) fs)
                     | Some n \<Rightarrow> (1, fs)))
     | other \<Rightarrow> (1, fs))"

text \<open>Directory times for the examples: every directory was last changed at time 0.\<close>

definition dir_times_0 :: dir_times where
  "dir_times_0 fs q = 0"

section \<open>Example states\<close>

definition fs_c6 :: fs where
  "fs_c6 = [([''w''], Dir), ([''w'', ''a.NeF''], Link False [''..'', ''a.NeF'']),
            ([''w'', ''b.jpg''], File 3)]"

definition fs_c7 :: fs where
  "fs_c7 = [([''w''], Dir), ([''w'', ''a.nef''], Link False [''..'', ''a.nef'']),
            ([''w'', ''a.jpg''], File 3),
            ([''w'', ''a_processed.JPG''], File 4), ([''w'', ''a_processed.jpeg''], File 5)]"

definition fs_c10 :: fs where
  "fs_c10 = [([''w''], Dir), ([''w'', ''t1''], Dir), ([''w'', ''t1'', ''published''], Dir),
     ([''w'', ''t1'', ''a_small.jpg''], Link False [''..'', ''a_small.jpg'']),
     ([''w'', ''t1'', ''published'', ''b_small.jpg''], Link False [''..'', ''..'', ''b_small.jpg'']),
     ([''w'', ''t1'', ''notes.txt''], File 1),
     ([''w'', ''t3''], File 2)]"

definition dir_c10 :: directory where
  "dir_c10 = \<lparr>rootdir = [''w''], known_subdirs = [''t1'', ''t2''], sources = []\<rparr>"

definition fs_c9 :: fs where
  "fs_c9 = [([''arch''], Dir), ([''arch'', ''01''], Dir), ([''arch'', ''02''], Dir),
     ([''arch'', ''02'', ''2022-02-03''], Dir),
     ([''arch'', ''02'', ''2022-02-03'', ''publish''], Dir),
     ([''arch'', ''01'', ''2022-01-05''], Dir),
     ([''arch'', ''01'', ''2022-01-02''], Dir),
     ([''arch'', ''01'', ''2022-01-02'', ''b''], Dir),
     ([''arch'', ''01'', ''2022-01-02'', ''a''], Dir),
     ([''arch'', ''01'', ''2022-01-02'', ''a'', ''publish''], Dir),
     ([''arch'', ''01'', ''notes''], Dir)]"


definition fs_c5 :: fs where
  "fs_c5 = [([''w''], Dir),
     ([''w'', ''a.nef''], Link False [''..'', ''a.nef'']), ([''w'', ''a.JPG''], File 5),
     ([''w'', ''b.nef''], Link False [''..'', ''b.nef'']), ([''w'', ''b.JPG''], File 7),
     ([''w'', ''b_small.jpg''], File 6),
     ([''w'', ''c.nef''], Link False [''..'', ''c.nef'']), ([''w'', ''c.JPG''], File 7),
     ([''w'', ''c_small.jpg''], File 7),
     ([''w'', ''e.nef''], Link False [''..'', ''e.nef'']),
     ([''w'', ''f.nef''], Link False [''..'', ''f.nef'']), ([''w'', ''f.JPG''], File 7),
     ([''w'', ''f_small.jpg''], Dir)]"


definition fs_c8 :: fs where
  "fs_c8 = [([''2022-01-01''], Dir), ([''2022-01-01'', ''publish''], Dir),
     ([''2022-01-01'', ''publish'', ''DSC_0001.NEF''],
        Link True [''mnt'', ''arch'', ''2022'', ''01'', ''2022-01-01'', ''DSC_0001.NEF'']),
     ([''2022-01-01'', ''publish'', ''DSC_0002.JPG''],
        Link False [''nowhere'', ''DSC_0002.JPG'']),
     ([''2022-01-01'', ''publish'', ''notes.txt''], File 1)]"

definition dir_c8 :: directory where
  "dir_c8 = Directory fs_c8 [''2022-01-01'', ''publish''] [''test1'', ''test2'']"


definition fs_c4 :: fs where
  "fs_c4 = [([''w''], Dir),
     ([''w'', ''a.nef''], Link False [''..'', ''a.nef'']),
     ([''w'', ''b.jpg''], Link False [''..'', ''b.jpg'']),
     ([''w'', ''a_small.jpg''], File 3), ([''w'', ''b_small.jpg''], File 4),
     ([''w'', ''t1''], Dir), ([''w'', ''t1'', ''published''], Dir),
     ([''w'', ''t1'', ''published'', ''a_small.jpg''], Link False [''..'', ''..'', ''a_small.jpg'']),
     ([''w'', ''t2''], Dir),
     ([''w'', ''t2'', ''b_small.jpg''], Link False [''..'', ''b_small.jpg''])]"

definition dir_c4 :: directory where
  "dir_c4 = Directory fs_c4 [''w''] [''t1'', ''t2'', ''t3'']"

definition fs_c3 :: fs where
  "fs_c3 = [([''w''], Dir), ([''w'', ''t1''], Link False [''gone''])]"

definition dir_c3 :: directory where
  "dir_c3 = Directory fs_c3 [''w''] [''t1'']"

definition fs_c3w :: fs where
  "fs_c3w = [([''w''], Dir), ([''w'', ''a.nef''], Link False [''..'', ''a.nef'']),
     ([''w'', ''a_small.jpg''], File 3), ([''w'', ''t1''], Dir),
     ([''w'', ''t1'', ''published''], Dir),
     ([''w'', ''t1'', ''a_small.jpg''], Link False [''..'', ''a_small.jpg''])]"

definition dir_c3w :: directory where
  "dir_c3w = Directory fs_c3w [''w''] [''t1'']"




definition dir_c5 :: directory where
  "dir_c5 = Directory fs_c5 [''w''] []"

definition fs_c5_after :: fs where
  "fs_c5_after = [([''w''], Dir), ([''w'', ''a.nef''], Link False [''..'', ''a.nef'']),
      ([''w'', ''a.JPG''], File 5),
      ([''w'', ''b.nef''], Link False [''..'', ''b.nef'']),
      ([''w'', ''b.JPG''], File 7), ([''w'', ''b_small.jpg''], File 9),
      ([''w'', ''c.nef''], Link False [''..'', ''c.nef'']),
      ([''w'', ''c.JPG''], File 7), ([''w'', ''c_small.jpg''], File 7),
      ([''w'', ''e.nef''], Link False [''..'', ''e.nef'']),
      ([''w'', ''f.nef''], Link False [''..'', ''f.nef'']),
      ([''w'', ''f.JPG''], File 7), ([''w'', ''f_small.jpg''], Dir),
      ([''w'', ''a_small.jpg''], File 9)]"

section \<open>Properties\<close>

subsection \<open>Names\<close>

lemma rfind_dotted:
  assumes "c \<notin> set e"
  shows "rfind c (s @ c # e) = int (length s)"
proof -
  have "takeWhile (\<lambda>x. x \<noteq> c) (rev e @ c # rev s) = rev e"
    using assms by (simp add: takeWhile_append)
  then show ?thesis by (simp add: rfind_def)
qed

lemma suffix_of_dotted:
  assumes "s \<noteq> []" "e \<noteq> []" "CHR ''.'' \<notin> set e"
  shows "suffix_of (d @ [s @ CHR ''.'' # e]) = CHR ''.'' # e"
  using assms by (simp add: suffix_of_def name_def rfind_dotted Let_def)

lemma stem_dotted:
  assumes "s \<noteq> []" "e \<noteq> []" "CHR ''.'' \<notin> set e"
  shows "stem (d @ [s @ CHR ''.'' # e]) = s"
  using assms by (simp add: stem_def name_def rfind_dotted Let_def)

lemma lower_dot: "lower (CHR ''.'' # e) = CHR ''.'' # lower e"
  by (simp add: lower_def lower_char_def)

lemma is_symlink_file: "lstat fs p = Some (File t) \<Longrightarrow> \<not> is_symlink fs p"
  by (simp add: is_symlink_def)

lemma is_symlink_dir: "lstat fs p = Some Dir \<Longrightarrow> \<not> is_symlink fs p"
  by (simp add: is_symlink_def)

subsection \<open>Path Classifier\<close>

text \<open>
  C6. Classification is a function of the entry alone (it returns a value and changes
  nothing). It answers raw-source exactly for a symbolic link whose suffix lowercases to
  \<^verbatim>\<open>.nef\<close> or \<^verbatim>\<open>.cr3\<close>, jpeg-source exactly for a symbolic link whose suffix lowercases to
  \<^verbatim>\<open>.jpg\<close> or \<^verbatim>\<open>.jpeg\<close>, and not-a-source for everything else, plain files and
  directories included. For a name \<open>s.e\<close> the suffix is \<open>.e\<close>, and only it is
  lowercased.
\<close>

theorem classify_total:
  "(classify fs p = Some SOURCE_RAW \<longleftrightarrow>
      is_symlink fs p \<and> lower (suffix_of p) \<in> {''.nef'', ''.cr3''}) \<and>
   (classify fs p = Some SOURCE_JPEG \<longleftrightarrow>
      is_symlink fs p \<and> lower (suffix_of p) \<in> {''.jpg'', ''.jpeg''}) \<and>
   (classify fs p = None \<longleftrightarrow>
      \<not> is_symlink fs p \<or> lower (suffix_of p) \<notin> {''.nef'', ''.cr3'', ''.jpg'', ''.jpeg''}) \<and>
   (lstat fs p = Some (File t) \<longrightarrow> classify fs p = None) \<and>
   (lstat fs p = Some Dir \<longrightarrow> classify fs p = None) \<and>
   (s \<noteq> [] \<and> e \<noteq> [] \<and> CHR ''.'' \<notin> set e \<longrightarrow>
      lower (suffix_of (d @ [s @ CHR ''.'' # e])) = CHR ''.'' # lower e)"
  by (auto simp: classify_def Let_def suffix_of_dotted lower_dot is_symlink_file is_symlink_dir)

theorem classify_total_witness:
  "classify fs_c6 [''w'', ''a.NeF''] = Some SOURCE_RAW \<and>
   is_symlink fs_c6 [''w'', ''a.NeF''] \<and>
   lower (suffix_of ([''w''] @ [''a'' @ CHR ''.'' # ''NeF''])) = ''.nef'' \<and>
   lstat fs_c6 [''w'', ''b.jpg''] = Some (File 3) \<and>
   classify fs_c6 [''w'', ''b.jpg''] = None \<and>
   lstat fs_c6 [''w''] = Some Dir \<and> classify fs_c6 [''w''] = None"
proof -
  have ev: "is_symlink fs_c6 [''w'', ''a.NeF'']" "lower ''NeF'' = ''nef''"
      "lstat fs_c6 [''w'', ''b.jpg''] = Some (File 3)" "lstat fs_c6 [''w''] = Some Dir"
    by code_simp+
  note a = classify_total [of fs_c6 "[''w'', ''a.NeF'']" 0 "''a''" "''NeF''" "[''w'']"]
  note b = classify_total [of fs_c6 "[''w'', ''b.jpg'']" 3 "''a''" "''NeF''" "[''w'']"]
  note c = classify_total [of fs_c6 "[''w'']" 3 "''a''" "''NeF''" "[''w'']"]
  from a b c ev show ?thesis by simp
qed

subsection \<open>Source Image\<close>

lemma with_suffix_stem:
  assumes "suffix_of p \<noteq> []"
  shows "with_suffix p sfx = parent p @ [stem p @ sfx]"
proof -
  let ?nm = "name p" and ?i = "rfind CHR ''.'' (name p)"
  from assms have c: "0 < ?i \<and> ?i < int (length ?nm) - 1"
    by (auto simp: suffix_of_def Let_def split: if_splits)
  then have s: "suffix_of p = drop (nat ?i) ?nm" "stem p = take (nat ?i) ?nm"
    by (simp_all add: suffix_of_def stem_def Let_def)
  from c have "length ?nm - length (drop (nat ?i) ?nm) = nat ?i" by auto
  with assms s show ?thesis by (simp add: with_suffix_def Let_def)
qed

lemma classify_raw_suffix: "classify fs p = Some SOURCE_RAW \<Longrightarrow> suffix_of p \<noteq> []"
  by (auto simp: classify_def Let_def lower_def split: if_splits)

text \<open>
  C7. For a raw source (a path the classifier accepts as raw) \<open>large\<close> is the sibling
  with the same stem and the first of \<^verbatim>\<open>.JPG\<close>, \<^verbatim>\<open>.jpg\<close> that exists, the \<^verbatim>\<open>.JPG\<close> sibling
  when neither exists. For a jpeg source it is the first existing sibling
  \<^verbatim>\<open><stem>_processed.<ext>\<close> in the order jpg, JPG, jpeg, JPEG, and the source path itself
  when there is none. \<open>small\<close> is the sibling \<^verbatim>\<open><stem>_small.jpg\<close> for both.
\<close>

theorem large_small_paths:
  "(classify fs' p = Some SOURCE_RAW \<longrightarrow>
      large fs (RawSourceImage p) =
        (if exists fs (sibling p (stem p @ ''.JPG'')) then sibling p (stem p @ ''.JPG'')
         else if exists fs (sibling p (stem p @ ''.jpg'')) then sibling p (stem p @ ''.jpg'')
         else sibling p (stem p @ ''.JPG''))) \<and>
   large fs (JpegSourceImage p) =
     (if exists fs (sibling p (stem p @ ''_processed.jpg''))
        then sibling p (stem p @ ''_processed.jpg'')
      else if exists fs (sibling p (stem p @ ''_processed.JPG''))
        then sibling p (stem p @ ''_processed.JPG'')
      else if exists fs (sibling p (stem p @ ''_processed.jpeg''))
        then sibling p (stem p @ ''_processed.jpeg'')
      else if exists fs (sibling p (stem p @ ''_processed.JPEG''))
        then sibling p (stem p @ ''_processed.JPEG'')
      else p) \<and>
   small (RawSourceImage p) = sibling p (stem p @ ''_small.jpg'') \<and>
   small (JpegSourceImage p) = sibling p (stem p @ ''_small.jpg'')"
  by (auto simp: sibling_def with_suffix_stem dest!: classify_raw_suffix)

theorem large_small_paths_witness:
  "classify fs_c7 [''w'', ''a.nef''] = Some SOURCE_RAW \<and>
   large fs_c7 (RawSourceImage [''w'', ''a.nef'']) = [''w'', ''a.jpg''] \<and>
   large fs_c7 (JpegSourceImage [''w'', ''a.jpg'']) = [''w'', ''a_processed.JPG''] \<and>
   small (RawSourceImage [''w'', ''a.nef'']) = [''w'', ''a_small.jpg'']"
proof -
  have ev: "classify fs_c7 [''w'', ''a.nef''] = Some SOURCE_RAW"
    by code_simp
  have ev2: "large fs_c7 (RawSourceImage [''w'', ''a.nef'']) = [''w'', ''a.jpg'']"
    "large fs_c7 (JpegSourceImage [''w'', ''a.jpg'']) = [''w'', ''a_processed.JPG'']"
    "small (RawSourceImage [''w'', ''a.nef'']) = [''w'', ''a_small.jpg'']"
    by code_simp+
  from large_small_paths [of fs_c7 "[''w'', ''a.nef'']" fs_c7] ev ev2 show ?thesis by simp
qed

subsection \<open>Directory listings\<close>

lemma lookup_key: "lookup fs (d @ [n]) \<noteq> None \<longleftrightarrow> d @ [n] \<in> fst ` set fs"
  by (simp add: lookup_def map_of_eq_None_iff)

lemma child_names:
  "(\<lambda>e. last (fst e)) ` {e \<in> set fs. fst e \<noteq> [] \<and> butlast (fst e) = d}
      = {n. d @ [n] \<in> fst ` set fs}" (is "?A = ?B")
proof (intro set_eqI iffI)
  fix n assume "n \<in> ?A"
  then obtain e where e: "e \<in> set fs" "fst e \<noteq> []" "butlast (fst e) = d" "last (fst e) = n"
    by auto
  from e(2) have "butlast (fst e) @ [last (fst e)] = fst e" by (rule append_butlast_last_id)
  with e(3,4) have "fst e = d @ [n]" by simp
  with e(1) have "d @ [n] \<in> fst ` set fs" by (metis imageI)
  then show "n \<in> ?B" by simp
next
  fix n assume "n \<in> ?B"
  then have "d @ [n] \<in> fst ` set fs" by simp
  then obtain e where e: "e \<in> set fs" "fst e = d @ [n]" by auto
  then have "fst e \<noteq> []" "butlast (fst e) = d" "last (fst e) = n" by simp_all
  with e(1) have "e \<in> {e \<in> set fs. fst e \<noteq> [] \<and> butlast (fst e) = d}" by simp
  then have "last (fst e) \<in> ?A" by (rule imageI)
  then show "n \<in> ?A" using \<open>last (fst e) = n\<close> by simp
qed

lemma Collect_reorder: "{n \<in> {n. P n}. Q n \<and> R n} = {n. Q n \<and> R n \<and> P n}"
  by blast

lemma set_listdir:
  "set (listdir fs d) = {n. n \<noteq> curdir \<and> n \<noteq> pardir \<and> lookup fs (d @ [n]) \<noteq> None}"
proof -
  have "set (listdir fs d) =
     {n \<in> (\<lambda>e. last (fst e)) ` {e \<in> set fs. fst e \<noteq> [] \<and> butlast (fst e) = d}. n \<noteq> curdir \<and> n \<noteq> pardir}"
    unfolding listdir_def by (simp only: set_remdups set_filter set_map)
  also have "\<dots> = {n. n \<noteq> curdir \<and> n \<noteq> pardir \<and> lookup fs (d @ [n]) \<noteq> None}"
    unfolding child_names lookup_key by (rule Collect_reorder)
  finally show ?thesis .
qed

lemma distinct_listdir: "distinct (listdir fs d)"
  by (simp add: listdir_def)

lemma lresolve_child:
  assumes "resolve fs p = Inr q" "lookup fs q = Some Dir" "n \<noteq> curdir" "n \<noteq> pardir"
  shows "lresolve fs (p @ [n]) = Inr (q @ [n])"
  using assms by (simp add: lresolve_def)

lemma lstat_child:
  assumes "resolve fs p = Inr q" "lookup fs q = Some Dir" "n \<noteq> curdir" "n \<noteq> pardir"
  shows "lstat fs (p @ [n]) = lookup fs (q @ [n])"
  using assms by (simp add: lstat_def lresolve_child)

lemma listdir_not_dots: "n \<in> set (listdir fs q) \<Longrightarrow> n \<noteq> curdir \<and> n \<noteq> pardir"
  by (simp add: listdir_def)

lemma filter_symlink_children:
  assumes "resolve fs p = Inr q" "lookup fs q = Some Dir"
    and "\<forall>n\<in>set ns. n \<noteq> curdir \<and> n \<noteq> pardir"
  shows "filter (is_symlink fs) (map (\<lambda>n. p @ [n]) ns) =
         map (\<lambda>n. p @ [n]) (filter (\<lambda>n. is_link (lookup fs (q @ [n]))) ns)"
  using assms(3)
proof (induction ns)
  case Nil
  then show ?case by simp
next
  case (Cons n ns)
  then have "is_symlink fs (p @ [n]) = is_link (lookup fs (q @ [n]))"
    using lstat_child [OF assms(1,2)] by (simp add: is_symlink_def)
  with Cons show ?case by simp
qed

lemma glob_star:
  assumes "resolve fs p = Inr q" "lookup fs q = Some Dir"
  shows "glob match_star fs p = map (\<lambda>n. p @ [n]) (listdir fs q)"
  using assms by (simp add: glob_def match_star_def)

lemma glob_not_dir:
  assumes "resolve fs p = Inr q" "lookup fs q \<noteq> Some Dir"
  shows "glob pat fs p = []"
  using assms by (simp add: glob_def)

lemma not_published_dir:
  assumes "resolve fs (rootdir d @ [service]) = Inr q" "lookup fs q = Some Dir"
  shows "action_not_published d service fs =
     map (\<lambda>n. rootdir d @ [service, n])
       (filter (\<lambda>n. is_link (lookup fs (q @ [n]))) (listdir fs q))"
proof -
  have ex: "exists fs (rootdir d @ [service])"
    using assms by (simp add: exists_def stat_def)
  have "filter (is_symlink fs) (map (\<lambda>n. (rootdir d @ [service]) @ [n]) (listdir fs q)) =
      map (\<lambda>n. (rootdir d @ [service]) @ [n])
        (filter (\<lambda>n. is_link (lookup fs (q @ [n]))) (listdir fs q))"
    by (rule filter_symlink_children [OF assms]) (simp add: listdir_not_dots)
  with ex show ?thesis
    by (simp add: action_not_published_def Let_def glob_star [OF assms])
qed

subsection \<open>Listing the unpublished previews of a service\<close>

lemma not_published_absent:
  "\<not> exists fs (rootdir d @ [service]) \<Longrightarrow> action_not_published d service fs = []"
  by (simp add: action_not_published_def)

lemma not_published_not_dir:
  assumes "resolve fs (rootdir d @ [service]) = Inr q" "lookup fs q \<noteq> Some Dir"
  shows "action_not_published d service fs = []"
  using assms by (simp add: action_not_published_def Let_def glob_not_dir)

lemma is_link_Some: "is_link x \<Longrightarrow> x \<noteq> None"
  by (cases x) simp_all

lemma not_published_set:
  assumes "resolve fs (rootdir d @ [service]) = Inr q" "lookup fs q = Some Dir"
  shows "set (action_not_published d service fs) =
     {rootdir d @ [service, n] | n. n \<noteq> curdir \<and> n \<noteq> pardir \<and> is_link (lookup fs (q @ [n]))}"
proof -
  have "\<And>n. is_link (lookup fs (q @ [n])) \<Longrightarrow> lookup fs (q @ [n]) \<noteq> None"
    by (rule is_link_Some)
  then have "{n \<in> {n. n \<noteq> curdir \<and> n \<noteq> pardir \<and> lookup fs (q @ [n]) \<noteq> None}.
        is_link (lookup fs (q @ [n]))} =
      {n. n \<noteq> curdir \<and> n \<noteq> pardir \<and> is_link (lookup fs (q @ [n]))}"
    by blast
  then show ?thesis
    unfolding not_published_dir [OF assms] set_map set_filter set_listdir by (simp add: image_Collect)
qed

lemma not_published_distinct:
  assumes "resolve fs (rootdir d @ [service]) = Inr q" "lookup fs q = Some Dir"
  shows "distinct (action_not_published d service fs)"
  unfolding not_published_dir [OF assms]
  by (intro distinct_filter distinct_listdir iffD2 [OF distinct_map] conjI inj_onI) simp

text \<open>
  C10. For a service whose directory does not exist under the working directory the action
  prints nothing (and no call of it can raise). Where the path resolves to a directory it
  prints exactly the paths \<^verbatim>\<open>root/service/n\<close> of the entries \<open>n\<close> of that directory that are
  symbolic links, each once: direct children only, so nothing below \<^verbatim>\<open>published\<close>.
  Where the path exists and is no directory there is nothing to list.
\<close>

theorem action_not_published_prints:
  "(\<not> exists fs (rootdir d @ [service]) \<longrightarrow> action_not_published d service fs = []) \<and>
   (resolve fs (rootdir d @ [service]) = Inr q \<and> lookup fs q = Some Dir \<longrightarrow>
      action_not_published d service fs =
        map (\<lambda>n. rootdir d @ [service, n])
          (filter (\<lambda>n. is_link (lookup fs (q @ [n]))) (listdir fs q)) \<and>
      set (action_not_published d service fs) =
        {rootdir d @ [service, n] | n.
           n \<noteq> curdir \<and> n \<noteq> pardir \<and> is_link (lookup fs (q @ [n]))} \<and>
      distinct (action_not_published d service fs)) \<and>
   (resolve fs (rootdir d @ [service]) = Inr q \<and> lookup fs q \<noteq> Some Dir \<longrightarrow>
      action_not_published d service fs = [])"
proof (intro conjI impI)
  assume "\<not> exists fs (rootdir d @ [service])"
  then show "action_not_published d service fs = []" by (rule not_published_absent)
next
  assume a: "resolve fs (rootdir d @ [service]) = Inr q \<and> lookup fs q = Some Dir"
  show "action_not_published d service fs =
        map (\<lambda>n. rootdir d @ [service, n])
          (filter (\<lambda>n. is_link (lookup fs (q @ [n]))) (listdir fs q))"
    by (rule not_published_dir [OF conjunct1 [OF a] conjunct2 [OF a]])
  show "set (action_not_published d service fs) =
        {rootdir d @ [service, n] | n.
           n \<noteq> curdir \<and> n \<noteq> pardir \<and> is_link (lookup fs (q @ [n]))}"
    by (rule not_published_set [OF conjunct1 [OF a] conjunct2 [OF a]])
  show "distinct (action_not_published d service fs)"
    by (rule not_published_distinct [OF conjunct1 [OF a] conjunct2 [OF a]])
next
  assume a: "resolve fs (rootdir d @ [service]) = Inr q \<and> lookup fs q \<noteq> Some Dir"
  show "action_not_published d service fs = []"
    by (rule not_published_not_dir [OF conjunct1 [OF a] conjunct2 [OF a]])
qed

theorem action_not_published_prints_witness:
  "\<not> exists fs_c10 (rootdir dir_c10 @ [''t2'']) \<and>
   action_not_published dir_c10 ''t2'' fs_c10 = [] \<and>
   resolve fs_c10 (rootdir dir_c10 @ [''t1'']) = Inr [''w'', ''t1''] \<and>
   lookup fs_c10 [''w'', ''t1''] = Some Dir \<and>
   action_not_published dir_c10 ''t1'' fs_c10 = [[''w'', ''t1'', ''a_small.jpg'']] \<and>
   resolve fs_c10 (rootdir dir_c10 @ [''t3'']) = Inr [''w'', ''t3''] \<and>
   lookup fs_c10 [''w'', ''t3''] \<noteq> Some Dir \<and>
   action_not_published dir_c10 ''t3'' fs_c10 = []"
proof -
  have ev: "\<not> exists fs_c10 (rootdir dir_c10 @ [''t2''])"
    "resolve fs_c10 (rootdir dir_c10 @ [''t1'']) = Inr [''w'', ''t1'']"
    "lookup fs_c10 [''w'', ''t1''] = Some Dir"
    "resolve fs_c10 (rootdir dir_c10 @ [''t3'']) = Inr [''w'', ''t3'']"
    "lookup fs_c10 [''w'', ''t3''] \<noteq> Some Dir"
    by code_simp+
  have ev2: "map (\<lambda>n. rootdir dir_c10 @ [''t1'', n])
          (filter (\<lambda>n. is_link (lookup fs_c10 ([''w'', ''t1''] @ [n]))) (listdir fs_c10 [''w'', ''t1'']))
      = [[''w'', ''t1'', ''a_small.jpg'']]"
    by code_simp
  note a = action_not_published_prints [of fs_c10 dir_c10 "''t2''" "[]"]
  note b = action_not_published_prints [of fs_c10 dir_c10 "''t1''" "[''w'', ''t1'']"]
  note c = action_not_published_prints [of fs_c10 dir_c10 "''t3''" "[''w'', ''t3'']"]
  have 1: "action_not_published dir_c10 ''t2'' fs_c10 = []"
    by (rule a [THEN conjunct1, THEN mp, OF ev(1)])
  have 2: "action_not_published dir_c10 ''t1'' fs_c10 = [[''w'', ''t1'', ''a_small.jpg'']]"
    by (rule trans [OF b [THEN conjunct2, THEN conjunct1, THEN mp, OF conjI [OF ev(2) ev(3)],
          THEN conjunct1] ev2])
  have 3: "action_not_published dir_c10 ''t3'' fs_c10 = []"
    by (rule c [THEN conjunct2, THEN conjunct2, THEN mp, OF conjI [OF ev(4) ev(5)]])
  from ev 1 2 3 show ?thesis by (intro conjI)
qed

subsection \<open>Workdir Discovery\<close>

lemma is_dir_resolve:
  "is_dir fs w \<longleftrightarrow> (\<exists>q. resolve fs w = Inr q \<and> lookup fs q = Some Dir)"
  by (auto simp: is_dir_def stat_def split: sum.splits)

lemma iterdir_dir: "is_dir fs w \<Longrightarrow> iterdir fs w = Inr (glob match_star fs w)"
  by (auto simp: is_dir_resolve iterdir_def glob_def match_star_def)

lemma iterdir_not_dir: "\<not> is_dir fs w \<Longrightarrow> \<exists>e. iterdir fs w = Inl e"
  by (auto simp: is_dir_resolve iterdir_def split: sum.splits)

lemma roots_dirs:
  "\<forall>w\<in>set ws. is_dir fs w \<Longrightarrow>
   roots fs ws = Inr (concat (map (\<lambda>w. filter (\<lambda>q. date_match (name q)) (glob match_star fs w)) ws))"
  by (induction ws) (simp_all add: bind_r_def iterdir_dir)

lemma roots_not_dir:
  "\<exists>w\<in>set ws. \<not> is_dir fs w \<Longrightarrow> \<exists>e. roots fs ws = Inl e"
proof (induction ws)
  case Nil
  then show ?case by simp
next
  case (Cons w ws)
  show ?case
  proof (cases "is_dir fs w")
    case True
    with Cons.prems have "\<exists>w\<in>set ws. \<not> is_dir fs w" by simp
    then obtain e where "roots fs ws = Inl e" using Cons.IH by blast
    with True show ?thesis by (simp add: bind_r_def iterdir_dir)
  next
    case False
    then obtain e where "iterdir fs w = Inl e" using iterdir_not_dir by blast
    then show ?thesis by (simp add: bind_r_def)
  qed
qed

lemma letter_roots_filter:
  "letter_roots fs r ls = map (\<lambda>l. r @ [[l]]) (filter (\<lambda>l. exists fs (r @ [[l]])) ls)"
  by (induction ls) simp_all

lemma date_root_yield_eq:
  "date_root_yield fs r =
    (if \<exists>l\<in>set ls8. exists fs (r @ [[l]])
     then map (\<lambda>l. r @ [[l]]) (filter (\<lambda>l. exists fs (r @ [[l]])) ls8) else [r])"
  if "ls8 = ''abcdefgh''"
  unfolding date_root_yield_def Let_def letter_roots_filter that [symmetric]
  by (simp add: filter_empty_conv)

lemma month_workdirs_eq:
  "month_workdirs fs p =
    (if \<exists>m\<in>set months. exists fs (p @ [m])
     then map (\<lambda>m. p @ [m]) (filter (\<lambda>m. exists fs (p @ [m])) months) else [p])"
  unfolding month_workdirs_def Let_def filter_map comp_def
  by (simp add: filter_empty_conv)

lemma date_shape_digits:
  "list_all is_digit [y1, y2, y3, y4, m1, m2, d1, d2] \<Longrightarrow>
   date_match [y1, y2, y3, y4, CHR ''-'', m1, m2, CHR ''-'', d1, d2]"
  by (simp add: date_match_def date_shape_def)

lemma all_workdirs_dirs:
  assumes "\<forall>w\<in>set (month_workdirs fs p). is_dir fs w"
  shows "all_workdirs fs p = Inr (discovered fs p)"
  by (simp add: all_workdirs_def roots_dirs [OF assms] bind_r_def discovered_def date_roots_def)

lemma all_workdirs_not_dir:
  assumes "\<exists>w\<in>set (month_workdirs fs p). \<not> is_dir fs w"
  shows "\<exists>e. all_workdirs fs p = Inl e"
proof -
  obtain e where "roots fs (month_workdirs fs p) = Inl e" using roots_not_dir [OF assms] by blast
  then show ?thesis by (simp add: all_workdirs_def bind_r_def)
qed


lemma workdirs_dirs:
  assumes "\<forall>w\<in>set (month_workdirs fs p). is_dir fs w"
  shows "workdirs fs p =
     Inr (filter (exists fs) (map (\<lambda>q. q @ [''publish'']) (discovered fs p)))"
  by (simp add: workdirs_def all_workdirs_dirs [OF assms] bind_r_def)

lemma workdirs_not_dir:
  assumes "\<exists>w\<in>set (month_workdirs fs p). \<not> is_dir fs w"
  shows "\<exists>e. workdirs fs p = Inl e"
proof -
  obtain e where "all_workdirs fs p = Inl e" using all_workdirs_not_dir [OF assms] by blast
  then show ?thesis by (simp add: workdirs_def bind_r_def)
qed

text \<open>
  C9. Where every scanned directory (each month bucket \<^verbatim>\<open>01\<close>..\<^verbatim>\<open>12\<close> that exists, else the
  root) is a directory, discovery takes the entries whose name matches the date pattern,
  sorts them by path, and yields for each one its existing sub-roots \<^verbatim>\<open>a\<close>..\<^verbatim>\<open>h\<close> in that
  order, or the date root itself when it has none; \<open>workdirs\<close> keeps the \<^verbatim>\<open>publish\<close>
  directories of these that exist and drops the others without an error. Where a scanned
  path is no directory, \<^verbatim>\<open>iterdir\<close> raises. Every name of four digits, a hyphen, two
  digits, a hyphen and two digits matches the pattern.
\<close>

theorem workdir_discovery:
  "((\<forall>w\<in>set (month_workdirs fs p). is_dir fs w) \<longrightarrow>
      all_workdirs fs p = Inr (concat (map (date_root_yield fs) (sort (date_roots fs p)))) \<and>
      workdirs fs p =
        Inr (filter (exists fs) (map (\<lambda>q. q @ [''publish''])
               (concat (map (date_root_yield fs) (sort (date_roots fs p))))))) \<and>
   ((\<exists>w\<in>set (month_workdirs fs p). \<not> is_dir fs w) \<longrightarrow>
      (\<exists>e. all_workdirs fs p = Inl e) \<and> (\<exists>e. workdirs fs p = Inl e)) \<and>
   month_workdirs fs p =
     (if \<exists>m\<in>set months. exists fs (p @ [m])
      then map (\<lambda>m. p @ [m]) (filter (\<lambda>m. exists fs (p @ [m])) months) else [p]) \<and>
   date_roots fs p =
     concat (map (\<lambda>w. filter (\<lambda>q. date_match (name q)) (glob match_star fs w))
       (month_workdirs fs p)) \<and>
   date_root_yield fs r =
     (if \<exists>l\<in>set ''abcdefgh''. exists fs (r @ [[l]])
      then map (\<lambda>l. r @ [[l]]) (filter (\<lambda>l. exists fs (r @ [[l]])) ''abcdefgh'') else [r]) \<and>
   sorted (sort (date_roots fs p)) \<and> mset (sort (date_roots fs p)) = mset (date_roots fs p) \<and>
   (list_all is_digit [y1, y2, y3, y4, m1, m2, d1, d2] \<longrightarrow>
      date_match [y1, y2, y3, y4, CHR ''-'', m1, m2, CHR ''-'', d1, d2])"
proof (intro conjI impI)
  assume a: "\<forall>w\<in>set (month_workdirs fs p). is_dir fs w"
  show "all_workdirs fs p = Inr (concat (map (date_root_yield fs) (sort (date_roots fs p))))"
    using all_workdirs_dirs [OF a] by (simp only: discovered_def)
  show "workdirs fs p =
        Inr (filter (exists fs) (map (\<lambda>q. q @ [''publish''])
               (concat (map (date_root_yield fs) (sort (date_roots fs p))))))"
    using workdirs_dirs [OF a] by (simp only: discovered_def)
next
  assume a: "\<exists>w\<in>set (month_workdirs fs p). \<not> is_dir fs w"
  show "\<exists>e. all_workdirs fs p = Inl e" by (rule all_workdirs_not_dir [OF a])
  show "\<exists>e. workdirs fs p = Inl e" by (rule workdirs_not_dir [OF a])
next
  show "month_workdirs fs p =
     (if \<exists>m\<in>set months. exists fs (p @ [m])
      then map (\<lambda>m. p @ [m]) (filter (\<lambda>m. exists fs (p @ [m])) months) else [p])"
    by (rule month_workdirs_eq)
  show "date_roots fs p =
     concat (map (\<lambda>w. filter (\<lambda>q. date_match (name q)) (glob match_star fs w))
       (month_workdirs fs p))"
    by (rule date_roots_def)
  show "date_root_yield fs r =
     (if \<exists>l\<in>set ''abcdefgh''. exists fs (r @ [[l]])
      then map (\<lambda>l. r @ [[l]]) (filter (\<lambda>l. exists fs (r @ [[l]])) ''abcdefgh'') else [r])"
    by (rule date_root_yield_eq) (rule refl)
  show "sorted (sort (date_roots fs p))" by (rule sorted_sort)
  show "mset (sort (date_roots fs p)) = mset (date_roots fs p)" by (rule mset_sort)
next
  assume "list_all is_digit [y1, y2, y3, y4, m1, m2, d1, d2]"
  then show "date_match [y1, y2, y3, y4, CHR ''-'', m1, m2, CHR ''-'', d1, d2]"
    by (rule date_shape_digits)
qed

theorem workdir_discovery_witness:
  "list_all (is_dir fs_c9) (month_workdirs fs_c9 [''arch'']) \<and>
   list_all is_digit ''20220102'' \<and> date_match ''2022-01-02'' \<and>
   all_workdirs fs_c9 [''arch''] =
     Inr [[''arch'', ''01'', ''2022-01-02'', ''a''], [''arch'', ''01'', ''2022-01-02'', ''b''],
          [''arch'', ''01'', ''2022-01-05''], [''arch'', ''02'', ''2022-02-03'']] \<and>
   workdirs fs_c9 [''arch''] =
     Inr [[''arch'', ''01'', ''2022-01-02'', ''a'', ''publish''],
          [''arch'', ''02'', ''2022-02-03'', ''publish'']]"
proof -
  have h: "\<forall>w\<in>set (month_workdirs fs_c9 [''arch'']). is_dir fs_c9 w"
    by code_simp
  have g: "list_all is_digit ''20220102''"
    by code_simp
  have e1: "concat (map (date_root_yield fs_c9) (sort (date_roots fs_c9 [''arch'']))) =
     [[''arch'', ''01'', ''2022-01-02'', ''a''], [''arch'', ''01'', ''2022-01-02'', ''b''],
          [''arch'', ''01'', ''2022-01-05''], [''arch'', ''02'', ''2022-02-03'']]"
    by code_simp
  have e2: "filter (exists fs_c9) (map (\<lambda>q. q @ [''publish''])
       [[''arch'', ''01'', ''2022-01-02'', ''a''], [''arch'', ''01'', ''2022-01-02'', ''b''],
          [''arch'', ''01'', ''2022-01-05''], [''arch'', ''02'', ''2022-02-03'']]) =
     [[''arch'', ''01'', ''2022-01-02'', ''a'', ''publish''],
          [''arch'', ''02'', ''2022-02-03'', ''publish'']]"
    by code_simp
  note t = workdir_discovery [where fs = fs_c9 and p = "[''arch'']" and r = "[]"
      and ?y1.0 = "CHR ''2''" and ?y2.0 = "CHR ''0''" and ?y3.0 = "CHR ''2''" and ?y4.0 = "CHR ''2''"
      and ?m1.0 = "CHR ''0''" and ?m2.0 = "CHR ''1''" and ?d1.0 = "CHR ''0''" and ?d2.0 = "CHR ''2''"]
  note t1 = t [THEN conjunct1, THEN mp, OF h]
  have a: "all_workdirs fs_c9 [''arch''] =
     Inr [[''arch'', ''01'', ''2022-01-02'', ''a''], [''arch'', ''01'', ''2022-01-02'', ''b''],
          [''arch'', ''01'', ''2022-01-05''], [''arch'', ''02'', ''2022-02-03'']]"
    using t1 [THEN conjunct1] unfolding e1 .
  have b: "workdirs fs_c9 [''arch''] =
     Inr [[''arch'', ''01'', ''2022-01-02'', ''a'', ''publish''],
          [''arch'', ''02'', ''2022-02-03'', ''publish'']]"
    using t1 [THEN conjunct2] unfolding e1 e2 .
  have c: "date_match ''2022-01-02''"
    using t [THEN conjunct2, THEN conjunct2, THEN conjunct2, THEN conjunct2, THEN conjunct2,
        THEN conjunct2, THEN conjunct2, THEN mp, OF g] .
  from h have h': "list_all (is_dir fs_c9) (month_workdirs fs_c9 [''arch''])"
    by (simp only: list_all_iff)
  from h' g c a b show ?thesis by (intro conjI)
qed

subsection \<open>Real directories and the calls on their entries\<close>

lemma real_dir_Nil: "real_dir fs []"
  by (simp add: real_dir_def lookup_def)

lemma real_dir_snoc:
  "real_dir fs (p @ [c]) \<longleftrightarrow> real_dir fs p \<and> plain_name c \<and> lookup fs (p @ [c]) = Some Dir"
  by (auto simp: real_dir_def)

lemma real_dir_lookup: "real_dir fs p \<Longrightarrow> lookup fs p = Some Dir"
  by (simp add: real_dir_def list_all_iff)

lemma real_dir_prefix: "real_dir fs (p @ cs) \<Longrightarrow> real_dir fs p"
  by (induction cs rule: rev_induct) (simp_all add: real_dir_snoc flip: append_assoc)

lemma walk_real:
  "real_dir fs (cur @ cs) \<Longrightarrow> walk f fs cur cs = Inr (cur @ cs)"
proof (induction cs arbitrary: cur)
  case Nil
  then show ?case by simp
next
  case (Cons c cs)
  from Cons.prems have r: "real_dir fs ((cur @ [c]) @ cs)" by simp
  then have "real_dir fs (cur @ [c])" by (rule real_dir_prefix)
  then have "real_dir fs cur" "plain_name c" "lookup fs (cur @ [c]) = Some Dir"
    by (simp_all add: real_dir_snoc)
  moreover have "walk f fs (cur @ [c]) cs = Inr ((cur @ [c]) @ cs)" by (rule Cons.IH [OF r])
  ultimately show ?case by (simp add: real_dir_lookup plain_name_def)
qed

lemma resolve_real: "real_dir fs p \<Longrightarrow> resolve fs p = Inr p"
  using walk_real [of fs "[]" p] by (simp add: resolve_def)

lemma lresolve_real_child:
  "real_dir fs d \<Longrightarrow> plain_name n \<Longrightarrow> lresolve fs (d @ [n]) = Inr (d @ [n])"
  by (simp add: lresolve_def resolve_real real_dir_lookup plain_name_def)

lemma lstat_real_child:
  "real_dir fs d \<Longrightarrow> plain_name n \<Longrightarrow> lstat fs (d @ [n]) = lookup fs (d @ [n])"
  by (simp add: lstat_def lresolve_real_child)

lemma lookup_update: "q \<noteq> [] \<Longrightarrow> lookup (AList.update q v fs) = (lookup fs)(q \<mapsto> v)"
  by (rule ext) (simp add: lookup_def update_conv')

lemma lookup_delete: "q \<noteq> [] \<Longrightarrow> lookup (AList.delete q fs) = (lookup fs)(q := None)"
  by (rule ext) (simp add: lookup_def delete_conv')

lemma real_dir_cong:
  assumes "real_dir fs p" "\<And>q. prefix q p \<Longrightarrow> lookup fs' q = lookup fs q"
  shows "real_dir fs' p"
  using assms by (simp add: real_dir_def list_all_iff)

lemma real_dir_upd:
  assumes "real_dir fs p" "lookup fs' = (lookup fs)(q := x)" "\<not> prefix q p"
  shows "real_dir fs' p"
  by (rule real_dir_cong [OF assms(1)]) (use assms(2,3) in auto)

lemma not_prefix_child: "\<not> prefix (d @ [n]) d"
  by (simp add: prefix_def)

text \<open>The four calls on an entry of a real directory.\<close>

lemma readlink_real:
  assumes "real_dir fs d" "plain_name n"
  shows "readlink fs (d @ [n]) =
    (case lookup fs (d @ [n]) of None \<Rightarrow> Inl FileNotFoundError
     | Some (Link ab tgt) \<Rightarrow> Inr (ab, tgt) | Some other \<Rightarrow> Inl InvalidArgument)"
  using assms by (simp add: readlink_def lresolve_real_child)

lemma unlink_real:
  assumes "real_dir fs d" "plain_name n"
  shows "unlink (d @ [n]) fs =
    (case lookup fs (d @ [n]) of None \<Rightarrow> Inl FileNotFoundError
     | Some Dir \<Rightarrow> Inl IsADirectoryError | Some other \<Rightarrow> Inr (AList.delete (d @ [n]) fs))"
  using assms by (simp add: unlink_def lresolve_real_child)

lemma symlink_to_real:
  assumes "real_dir fs d" "plain_name n"
  shows "symlink_to (d @ [n]) t fs =
    (case lookup fs (d @ [n]) of Some other \<Rightarrow> Inl FileExistsError
     | None \<Rightarrow> Inr (AList.update (d @ [n]) (Link (fst t) (snd t)) fs))"
  using assms by (simp add: symlink_to_def lresolve_real_child)

lemma mkdir_real:
  assumes "real_dir fs d" "plain_name n"
  shows "mkdir (d @ [n]) fs =
    (case lookup fs (d @ [n]) of Some other \<Rightarrow> Inl FileExistsError
     | None \<Rightarrow> Inr (AList.update (d @ [n]) Dir fs))"
  using assms by (simp add: mkdir_def lresolve_real_child)

subsection \<open>Step 4: repairing source links\<close>

lemma fixup_source_link_rel:
  assumes "real_dir fs d" "plain_name n" "lookup fs (d @ [n]) = Some (Link False tgt)"
  shows "fixup_source_link (d @ [n]) fs = Inr fs"
  using assms by (simp add: fixup_source_link_def readlink_real bind_r_def)

lemma fixup_source_link_abs:
  assumes "real_dir fs d" "plain_name n" "lookup fs (d @ [n]) = Some (Link True tgt)"
  shows "\<exists>fs'. fixup_source_link (d @ [n]) fs = Inr fs' \<and>
           lookup fs' = (lookup fs)(d @ [n] \<mapsto> Link False [pardir, n])"
proof -
  let ?p = "d @ [n]" and ?fs1 = "AList.delete (d @ [n]) fs"
  have l1: "lookup ?fs1 = (lookup fs)(?p := None)" by (simp add: lookup_delete)
  have r1: "real_dir ?fs1 d" by (rule real_dir_upd [OF assms(1) l1 not_prefix_child])
  have u: "unlink ?p fs = Inr ?fs1" using assms by (simp add: unlink_real)
  have s: "symlink_to ?p (False, [pardir, n]) ?fs1 =
        Inr (AList.update ?p (Link False [pardir, n]) ?fs1)"
    using l1 by (simp add: symlink_to_real [OF r1 assms(2)])
  have "fixup_source_link ?p fs = Inr (AList.update ?p (Link False [pardir, n]) ?fs1)"
    using assms u s by (simp add: fixup_source_link_def readlink_real bind_r_def name_def)
  moreover have "lookup (AList.update ?p (Link False [pardir, n]) ?fs1) =
      (lookup fs)(?p \<mapsto> Link False [pardir, n])"
    by (simp add: lookup_update l1)
  ultimately show ?thesis by blast
qed

lemma is_link_cases:
  "is_link x \<Longrightarrow> (\<exists>tgt. x = Some (Link True tgt)) \<or> (\<exists>tgt. x = Some (Link False tgt))"
  by (cases x rule: is_link.cases) auto


lemma fixup_source_link_step:
  assumes "real_dir fs d" "plain_name n" "is_link (lookup fs (d @ [n]))"
  shows "\<exists>fs'. fixup_source_link (d @ [n]) fs = Inr fs' \<and> lookup fs' = repaired fs {d @ [n]}"
proof -
  from is_link_cases [OF assms(3)] show ?thesis
  proof (elim disjE exE)
    fix tgt assume a: "lookup fs (d @ [n]) = Some (Link True tgt)"
    from fixup_source_link_abs [OF assms(1,2) a] obtain fs' where
      f: "fixup_source_link (d @ [n]) fs = Inr fs'"
        "lookup fs' = (lookup fs)(d @ [n] \<mapsto> Link False [pardir, n])" by blast
    have "lookup fs' = repaired fs {d @ [n]}"
      by (rule ext) (simp add: f(2) repaired_def a name_def)
    with f(1) show ?thesis by blast
  next
    fix tgt assume a: "lookup fs (d @ [n]) = Some (Link False tgt)"
    have "lookup fs = repaired fs {d @ [n]}"
      by (rule ext) (auto simp: repaired_def a)
    with fixup_source_link_rel [OF assms(1,2) a] show ?thesis by blast
  qed
qed

lemma repaired_real_dir:
  assumes "real_dir fs d" "lookup fs' = repaired fs ps"
  shows "real_dir fs' d"
proof (rule real_dir_cong [OF assms(1)])
  fix q assume "prefix q d"
  then have "lookup fs q = Some Dir"
    using assms(1) by (simp add: real_dir_def list_all_iff)
  then show "lookup fs' q = lookup fs q" by (simp add: assms(2) repaired_def)
qed

lemma repaired_is_link:
  assumes "lookup fs' = repaired fs ps" "is_link (lookup fs q)"
  shows "is_link (lookup fs' q)"
  using assms by (simp add: repaired_def)

lemma repaired_compose:
  assumes "lookup fs1 = repaired fs {p}" "lookup fs2 = repaired fs1 ps"
  shows "lookup fs2 = repaired fs (insert p ps)"
proof (rule ext)
  fix q
  show "lookup fs2 q = repaired fs (insert p ps) q"
    by (cases "is_abs_link (lookup fs q)") (auto simp: assms repaired_def)
qed

lemma fixup_source_loop:
  assumes "real_dir fs d"
    and "\<forall>src\<in>set srcs. \<exists>n. source_path src = d @ [n] \<and> plain_name n \<and> is_link (lookup fs (d @ [n]))"
  shows "\<exists>fs'. fixup_source_photos_links_loop srcs fs = Inr fs' \<and>
           lookup fs' = repaired fs (source_path ` set srcs)"
  using assms
proof (induction srcs arbitrary: fs)
  case Nil
  have "lookup fs = repaired fs {}" by (rule ext) (simp add: repaired_def)
  then show ?case by simp
next
  case (Cons src srcs)
  from Cons.prems(2) obtain n where
    n: "source_path src = d @ [n]" "plain_name n" "is_link (lookup fs (d @ [n]))" by auto
  from fixup_source_link_step [OF Cons.prems(1) n(2,3)] obtain fs1 where
    f1: "fixup_source_link (d @ [n]) fs = Inr fs1" "lookup fs1 = repaired fs {d @ [n]}" by blast
  have r1: "real_dir fs1 d" by (rule repaired_real_dir [OF Cons.prems(1) f1(2)])
  have "\<forall>s\<in>set srcs. \<exists>m. source_path s = d @ [m] \<and> plain_name m \<and> is_link (lookup fs1 (d @ [m]))"
  proof
    fix s assume "s \<in> set srcs"
    with Cons.prems(2) obtain m where
      m: "source_path s = d @ [m]" "plain_name m" "is_link (lookup fs (d @ [m]))" by auto
    from repaired_is_link [OF f1(2) m(3)] m(1,2)
    show "\<exists>m. source_path s = d @ [m] \<and> plain_name m \<and> is_link (lookup fs1 (d @ [m]))" by blast
  qed
  from Cons.IH [OF r1 this] obtain fs2 where
    f2: "fixup_source_photos_links_loop srcs fs1 = Inr fs2"
      "lookup fs2 = repaired fs1 (source_path ` set srcs)" by blast
  have "fixup_source_photos_links_loop (src # srcs) fs = Inr fs2"
    by (simp add: n(1) f1(1) f2(1) bind_r_def)
  moreover have "lookup fs2 = repaired fs (source_path ` set (src # srcs))"
    using repaired_compose [OF f1(2) f2(2)] by (simp add: n(1))
  ultimately show ?case by blast
qed


lemma scan_sources_subset:
  "src \<in> set (scan_sources fs ps) \<Longrightarrow>
     source_path src \<in> set ps \<and> is_symlink fs (source_path src) \<and> \<not> is_dir fs (source_path src)"
proof (induction ps)
  case Nil
  then show ?case by simp
next
  case (Cons p ps)
  show ?case
  proof (cases "src \<in> set (scan_sources fs ps)")
    case True
    with Cons.IH show ?thesis by simp
  next
    case False
    with Cons.prems have "source_path src = p \<and> \<not> is_dir fs p \<and> classify fs p \<noteq> None"
      by (auto split: if_splits option.splits source_type.splits)
    then show ?thesis by (auto simp: classify_def split: if_splits)
  qed
qed

lemma glob_real:
  "real_dir fs p \<Longrightarrow> glob pat fs p = map (\<lambda>n. p @ [n]) (filter pat (listdir fs p))"
  by (simp add: glob_def resolve_real real_dir_lookup)

lemma listdir_plain: "n \<in> set (listdir fs d) \<Longrightarrow> plain_name n"
  by (simp add: listdir_def plain_name_def)

lemma scanned_sources_are_links:
  assumes "real_dir fs root"
  shows "\<forall>src\<in>set (sources (Directory fs root subdirs)).
           \<exists>n. source_path src = rootdir (Directory fs root subdirs) @ [n] \<and> plain_name n \<and>
               is_link (lookup fs (rootdir (Directory fs root subdirs) @ [n]))"
proof
  fix src assume "src \<in> set (sources (Directory fs root subdirs))"
  then have "src \<in> set (scan_sources fs (glob match_star fs root))" by (simp add: Directory_def)
  from scan_sources_subset [OF this]
  have a: "source_path src \<in> set (glob match_star fs root)" "is_symlink fs (source_path src)"
    by simp_all
  from a(1) obtain n where n: "source_path src = root @ [n]" "n \<in> set (listdir fs root)"
    by (auto simp: glob_real [OF assms])
  from n(2) have p: "plain_name n" by (rule listdir_plain)
  from a(2) have "is_link (lookup fs (root @ [n]))"
    by (simp add: n(1) is_symlink_def lstat_real_child [OF assms p])
  with n(1) p show "\<exists>n. source_path src = rootdir (Directory fs root subdirs) @ [n] \<and> plain_name n \<and>
               is_link (lookup fs (rootdir (Directory fs root subdirs) @ [n]))"
    by (simp add: Directory_def)
qed

text \<open>
  C8. The source-link repair step on a working directory of real directories whose
  sources are links directly in it: the step does not raise, every source link whose
  target is absolute is replaced by the relative link \<^verbatim>\<open>../<name>\<close> under the same name,
  and every other entry of the filesystem, the source links with a relative target
  among them, is exactly as before, whatever its target.
\<close>

theorem fixup_source_photos_links_repairs:
  assumes "real_dir fs (rootdir d)"
    and "\<forall>src\<in>set (sources d). \<exists>n. source_path src = rootdir d @ [n] \<and> plain_name n \<and>
            is_link (lookup fs (rootdir d @ [n]))"
  shows "\<exists>fs'. fixup_source_photos_links d fs = Inr fs' \<and>
           (\<forall>q. lookup fs' q =
              (if q \<in> source_path ` set (sources d) \<and> is_abs_link (lookup fs q)
               then Some (Link False [pardir, name q]) else lookup fs q))"
proof -
  from fixup_source_loop [OF assms] obtain fs' where
    "fixup_source_photos_links_loop (sources d) fs = Inr fs'"
    "lookup fs' = repaired fs (source_path ` set (sources d))" by blast
  then show ?thesis by (auto simp: fixup_source_photos_links_def repaired_def)
qed


theorem fixup_source_photos_links_repairs_witness:
  "real_dir fs_c8 (rootdir dir_c8) \<and>
   sources dir_c8 = [RawSourceImage [''2022-01-01'', ''publish'', ''DSC_0001.NEF''],
                     JpegSourceImage [''2022-01-01'', ''publish'', ''DSC_0002.JPG'']] \<and>
   (\<exists>fs'. fixup_source_photos_links dir_c8 fs_c8 = Inr fs' \<and>
      lookup fs' [''2022-01-01'', ''publish'', ''DSC_0001.NEF''] =
        Some (Link False [''..'', ''DSC_0001.NEF'']) \<and>
      lookup fs' [''2022-01-01'', ''publish'', ''DSC_0002.JPG''] =
        Some (Link False [''nowhere'', ''DSC_0002.JPG'']))"
proof -
  have r: "real_dir fs_c8 [''2022-01-01'', ''publish'']"
    by code_simp
  have rd: "rootdir dir_c8 = [''2022-01-01'', ''publish'']"
    by (simp add: dir_c8_def Directory_def)
  from r have h1: "real_dir fs_c8 (rootdir dir_c8)" by (simp only: rd)
  have h2: "\<forall>src\<in>set (sources dir_c8). \<exists>n. source_path src = rootdir dir_c8 @ [n] \<and> plain_name n \<and>
            is_link (lookup fs_c8 (rootdir dir_c8 @ [n]))"
    unfolding dir_c8_def by (rule scanned_sources_are_links [OF r])
  from fixup_source_photos_links_repairs [OF h1 h2] obtain fs' where
    f: "fixup_source_photos_links dir_c8 fs_c8 = Inr fs'"
    and l: "\<And>q. lookup fs' q =
              (if q \<in> source_path ` set (sources dir_c8) \<and> is_abs_link (lookup fs_c8 q)
               then Some (Link False [pardir, name q]) else lookup fs_c8 q)" by blast
  have e1: "(if [''2022-01-01'', ''publish'', ''DSC_0001.NEF''] \<in> source_path ` set (sources dir_c8) \<and>
        is_abs_link (lookup fs_c8 [''2022-01-01'', ''publish'', ''DSC_0001.NEF''])
      then Some (Link False [pardir, name [''2022-01-01'', ''publish'', ''DSC_0001.NEF'']])
      else lookup fs_c8 [''2022-01-01'', ''publish'', ''DSC_0001.NEF'']) =
      Some (Link False [''..'', ''DSC_0001.NEF''])"
    by code_simp
  have e2: "(if [''2022-01-01'', ''publish'', ''DSC_0002.JPG''] \<in> source_path ` set (sources dir_c8) \<and>
        is_abs_link (lookup fs_c8 [''2022-01-01'', ''publish'', ''DSC_0002.JPG''])
      then Some (Link False [pardir, name [''2022-01-01'', ''publish'', ''DSC_0002.JPG'']])
      else lookup fs_c8 [''2022-01-01'', ''publish'', ''DSC_0002.JPG'']) =
      Some (Link False [''nowhere'', ''DSC_0002.JPG''])"
    by code_simp
  have "fixup_source_photos_links dir_c8 fs_c8 = Inr fs' \<and>
      lookup fs' [''2022-01-01'', ''publish'', ''DSC_0001.NEF''] =
        Some (Link False [''..'', ''DSC_0001.NEF'']) \<and>
      lookup fs' [''2022-01-01'', ''publish'', ''DSC_0002.JPG''] =
        Some (Link False [''nowhere'', ''DSC_0002.JPG''])"
    by (rule conjI [OF f conjI [OF trans [OF l e1] trans [OF l e2]]])
  then have "\<exists>fs'. fixup_source_photos_links dir_c8 fs_c8 = Inr fs' \<and>
      lookup fs' [''2022-01-01'', ''publish'', ''DSC_0001.NEF''] =
        Some (Link False [''..'', ''DSC_0001.NEF'']) \<and>
      lookup fs' [''2022-01-01'', ''publish'', ''DSC_0002.JPG''] =
        Some (Link False [''nowhere'', ''DSC_0002.JPG''])"
    by (rule exI [of _ fs'])
  moreover have "sources dir_c8 = [RawSourceImage [''2022-01-01'', ''publish'', ''DSC_0001.NEF''],
                     JpegSourceImage [''2022-01-01'', ''publish'', ''DSC_0002.JPG'']]"
    by code_simp
  ultimately show ?thesis by (intro conjI h1)
qed

subsection \<open>Entries of real directories\<close>

lemma walk_real_prefix:
  "real_dir fs (cur @ cs) \<Longrightarrow> walk f fs cur (cs @ rest) = walk f fs (cur @ cs) rest"
proof (induction cs arbitrary: cur)
  case Nil
  then show ?case by simp
next
  case (Cons c cs)
  from Cons.prems have r: "real_dir fs ((cur @ [c]) @ cs)" by simp
  then have "real_dir fs (cur @ [c])" by (rule real_dir_prefix)
  then have "real_dir fs cur" "plain_name c" "lookup fs (cur @ [c]) = Some Dir"
    by (simp_all add: real_dir_snoc)
  moreover have "walk f fs (cur @ [c]) (cs @ rest) = walk f fs ((cur @ [c]) @ cs) rest"
    by (rule Cons.IH [OF r])
  ultimately show ?case by (simp add: real_dir_lookup plain_name_def)
qed

lemma resolve_real_child:
  assumes "real_dir fs d" "plain_name n"
  shows "resolve fs (d @ [n]) =
    (case lookup fs (d @ [n]) of
       None \<Rightarrow> Inl FileNotFoundError
     | Some (Link ab tgt) \<Rightarrow> walk (MAXSYMLINKS - 1) fs (if ab then [] else d) tgt
     | Some other \<Rightarrow> Inr (d @ [n]))"
proof -
  have "resolve fs (d @ [n]) = walk MAXSYMLINKS fs d [n]"
    using walk_real_prefix [of fs "[]" d MAXSYMLINKS "[n]"] assms(1) by (simp add: resolve_def)
  also have "\<dots> = (case lookup fs (d @ [n]) of
       None \<Rightarrow> Inl FileNotFoundError
     | Some (Link ab tgt) \<Rightarrow> walk (MAXSYMLINKS - 1) fs (if ab then [] else d) tgt
     | Some other \<Rightarrow> Inr (d @ [n]))"
    using assms by (simp add: real_dir_lookup plain_name_def MAXSYMLINKS_def
        split: option.splits node.splits)
  finally show ?thesis .
qed

lemma exists_real_child:
  assumes "real_dir fs d" "plain_name n" "\<not> is_link (lookup fs (d @ [n]))"
  shows "exists fs (d @ [n]) \<longleftrightarrow> lookup fs (d @ [n]) \<noteq> None"
  using assms(3)
  by (auto simp: exists_def stat_def resolve_real_child [OF assms(1,2)]
      split: option.splits node.splits)

lemma exists_real: "real_dir fs d \<Longrightarrow> exists fs d"
  by (simp add: exists_def stat_def resolve_real real_dir_lookup)

lemma plain_published: "plain_name published"
  by (simp add: plain_name_def curdir_def pardir_def published_def)

lemma name_snoc: "name (p @ [n]) = n"
  by (simp add: name_def)

lemma glob_names_real:
  "real_dir fs p \<Longrightarrow> map name (glob pat fs p) = filter pat (listdir fs p)"
  by (simp add: glob_real comp_def name_snoc)

lemma glob_file:
  assumes "real_dir fs d" "plain_name n" "lookup fs (d @ [n]) = Some (File t)"
  shows "glob pat fs (d @ [n]) = []"
  using assms by (simp add: glob_def resolve_real_child)


lemma set_small_listdir: "set (filter match_small (listdir fs d)) = entries fs d"
  unfolding set_filter set_listdir entries_def plain_name_def by blast

lemma small_listdir_Collect: "{x \<in> set (listdir fs d). match_small x} = entries fs d"
  using set_small_listdir [of fs d] by simp

lemma managed_small_set:
  assumes "real_dir fs sd" "\<not> is_link (lookup fs (published_dir sd))"
  shows "set (managed_small fs sd) =
     entries fs sd \<union> (if lookup fs (published_dir sd) = Some Dir then entries fs (published_dir sd) else {})"
proof (cases "lookup fs (published_dir sd)")
  case None
  then show ?thesis
    using assms exists_real_child [OF assms(1) plain_published]
    by (simp add: managed_small_def published_dir_def glob_names_real small_listdir_Collect)
next
  case (Some x)
  show ?thesis
  proof (cases x)
    case (File t)
    with Some have l: "lookup fs (sd @ [published]) = Some (File t)"
      by (simp add: published_dir_def)
    show ?thesis
      using assms(1) l glob_file [OF assms(1) plain_published l]
      by (simp add: managed_small_def published_dir_def glob_names_real small_listdir_Collect)
  next
    case Dir
    with Some have l: "lookup fs (sd @ [published]) = Some Dir"
      by (simp add: published_dir_def)
    have r: "real_dir fs (sd @ [published])"
      using assms(1) l by (simp add: real_dir_snoc plain_published)
    show ?thesis
      using assms(1) l exists_real [OF r]
      by (simp add: managed_small_def published_dir_def glob_names_real r small_listdir_Collect)
  next
    case (Link ab tgt)
    with Some assms(2) show ?thesis by simp
  qed
qed

subsection \<open>Step 3: distributing previews\<close>

lemma with_links_empty: "with_links base sd {} = base"
  by (rule ext) (simp add: with_links_def)

lemma with_links_insert:
  "with_links (base(sd @ [n] \<mapsto> Link False [pardir, n])) sd ns = with_links base sd (insert n ns)"
  by (rule ext) (auto simp: with_links_def name_snoc)

lemma add_links_real:
  assumes "real_dir fs sd" "distinct ns"
    and "\<forall>n\<in>set ns. plain_name n \<and> lookup fs (sd @ [n]) = None"
  shows "\<exists>fs'. add_links sd ns fs = Inr fs' \<and> lookup fs' = with_links (lookup fs) sd (set ns)"
  using assms
proof (induction ns arbitrary: fs)
  case Nil
  then show ?case by (simp add: with_links_empty)
next
  case (Cons n ns)
  let ?fs1 = "AList.update (sd @ [n]) (Link False [pardir, n]) fs"
  from Cons.prems have n: "plain_name n" "lookup fs (sd @ [n]) = None" by simp_all
  have s: "symlink_to (sd @ [n]) (False, [pardir, n]) fs = Inr ?fs1"
    using n by (simp add: symlink_to_real [OF Cons.prems(1)])
  have l1: "lookup ?fs1 = (lookup fs)(sd @ [n] \<mapsto> Link False [pardir, n])"
    by (simp add: lookup_update)
  have r1: "real_dir ?fs1 sd"
    by (rule real_dir_upd [OF Cons.prems(1) _ not_prefix_child]) (simp add: l1)
  have d1: "distinct ns" using Cons.prems(2) by simp
  have a1: "\<forall>m\<in>set ns. plain_name m \<and> lookup ?fs1 (sd @ [m]) = None"
    using Cons.prems(2,3) by (auto simp: l1)
  from Cons.IH [OF r1 d1 a1] obtain fs2 where
    f2: "add_links sd ns ?fs1 = Inr fs2" "lookup fs2 = with_links (lookup ?fs1) sd (set ns)"
    by blast
  have "add_links sd (n # ns) fs = Inr fs2" by (simp add: s f2(1) bind_r_def)
  moreover have "lookup fs2 = with_links (lookup fs) sd (set (n # ns))"
    by (simp add: f2(2) l1 with_links_insert)
  ultimately show ?case by blast
qed

lemma with_links_real_dir:
  assumes "real_dir fs d" "lookup fs' = with_links (lookup fs) sd ns"
    and "\<forall>q. prefix q d \<longrightarrow> lookup fs q = Some Dir \<longrightarrow> q \<notin> (\<lambda>n. sd @ [n]) ` ns"
  shows "real_dir fs' d"
proof (rule real_dir_cong [OF assms(1)])
  fix q assume p: "prefix q d"
  then have "lookup fs q = Some Dir" using assms(1) by (simp add: real_dir_def list_all_iff)
  with p assms(3) have "q \<notin> (\<lambda>n. sd @ [n]) ` ns" by blast
  then show "lookup fs' q = lookup fs q" by (simp add: assms(2) with_links_def)
qed

lemma entries_None:
  "plain_name n \<Longrightarrow> match_small n \<Longrightarrow> n \<notin> entries fs d \<Longrightarrow> lookup fs (d @ [n]) = None"
  by (simp add: entries_def)

lemma add_new_for_service_dir:
  assumes "real_dir fs root" "plain_name s" "lookup fs (root @ [s]) = Some Dir"
    and "\<not> is_link (lookup fs (published_dir (root @ [s])))"
    and "distinct all_small" "\<forall>n\<in>set all_small. plain_name n \<and> match_small n"
  shows "\<exists>fs'. add_new_for_service all_small (root @ [s]) fs = Inr fs' \<and>
     lookup fs' = with_links (lookup fs) (root @ [s]) (new_set fs root s (set all_small))"
proof -
  let ?sd = "root @ [s]" and ?new = "new_names fs all_small (root @ [s])"
  have r: "real_dir fs ?sd" using assms(1-3) by (simp add: real_dir_snoc)
  have ex: "exists fs ?sd" by (rule exists_real [OF r])
  have sn: "set ?new = new_set fs root s (set all_small)"
    using assms(3) by (auto simp: new_names_def new_set_def)
  have d: "distinct ?new" using assms(5) by (simp add: new_names_def)
  have a: "\<forall>n\<in>set ?new. plain_name n \<and> lookup fs (?sd @ [n]) = None"
  proof
    fix n assume "n \<in> set ?new"
    then have n: "n \<in> set all_small" "n \<notin> set (managed_small fs ?sd)"
      by (simp_all add: new_names_def)
    from n(1) assms(6) have pm: "plain_name n" "match_small n" by simp_all
    from n(2) have "n \<notin> entries fs ?sd" by (simp add: managed_small_set [OF r assms(4)])
    with pm show "plain_name n \<and> lookup fs (?sd @ [n]) = None"
      using entries_None [of n fs ?sd] by simp
  qed
  from add_links_real [OF r d a] obtain fs' where
    f: "add_links ?sd ?new fs = Inr fs'" "lookup fs' = with_links (lookup fs) ?sd (set ?new)"
    by blast
  show ?thesis
  proof (cases "?new = []")
    case True
    then have "new_set fs root s (set all_small) = {}" using sn by simp
    then show ?thesis using ex True by (simp add: add_new_for_service_def Let_def with_links_empty)
  next
    case False
    then show ?thesis using ex f sn by (simp add: add_new_for_service_def Let_def)
  qed
qed

lemma add_new_for_service_absent:
  assumes "real_dir fs root" "plain_name s" "lookup fs (root @ [s]) = None"
  shows "add_new_for_service all_small (root @ [s]) fs = Inr fs"
    and "new_set fs root s A = {}"
  using assms by (simp_all add: add_new_for_service_def exists_real_child new_set_def)

lemma not_small_published: "\<not> match_small published"
  unfolding match_small_def published_def by code_simp

lemma with_links_other_length:
  "length q \<noteq> Suc (length sd) \<Longrightarrow> with_links base sd ns q = base q"
  by (auto simp: with_links_def)

lemma with_links_other_dir:
  "butlast q \<noteq> sd \<Longrightarrow> with_links base sd ns q = base q"
  by (auto simp: with_links_def)

lemma with_links_child:
  "with_links base sd ns (sd @ [n]) = (if n \<in> ns then Some (Link False [pardir, n]) else base (sd @ [n]))"
  by (auto simp: with_links_def name_snoc)

lemma entries_with_links:
  assumes "lookup fs1 = with_links (lookup fs) sd1 N" "small_names N"
  shows "entries fs1 sd = entries fs sd \<union> (if sd = sd1 then N else {})"
proof (cases "sd = sd1")
  case True
  show ?thesis
    using assms(2) unfolding entries_def assms(1) True small_names_def
    by (auto simp: with_links_child)
next
  case False
  then have "\<And>n. with_links (lookup fs) sd1 N (sd @ [n]) = lookup fs (sd @ [n])"
    by (simp add: with_links_other_dir)
  with False show ?thesis by (simp add: entries_def assms(1))
qed

lemma services_ok_Cons:
  "services_ok fs root (s # ss) \<longleftrightarrow>
     plain_name s \<and> (lookup fs (root @ [s]) = None \<or> lookup fs (root @ [s]) = Some Dir) \<and>
     \<not> is_link (lookup fs (published_dir (root @ [s]))) \<and> services_ok fs root ss"
  by (simp add: services_ok_def)

lemma services_okD:
  "services_ok fs root ss \<Longrightarrow> s \<in> set ss \<Longrightarrow>
     plain_name s \<and> (lookup fs (root @ [s]) = None \<or> lookup fs (root @ [s]) = Some Dir) \<and>
     \<not> is_link (lookup fs (published_dir (root @ [s])))"
  by (simp add: services_ok_def list_all_iff)

text \<open>What one service's links leave unchanged.\<close>

lemma after_links:
  assumes "lookup fs1 = with_links (lookup fs) (root @ [s1]) N" "small_names N"
  shows "lookup fs1 (root @ [s]) = lookup fs (root @ [s])"
    and "lookup fs1 (published_dir (root @ [s])) = lookup fs (published_dir (root @ [s]))"
    and "entries fs1 (published_dir (root @ [s])) = entries fs (published_dir (root @ [s]))"
    and "prefix q root \<Longrightarrow> lookup fs1 q = lookup fs q"
proof -
  show "lookup fs1 (root @ [s]) = lookup fs (root @ [s])"
    by (simp add: assms(1) with_links_other_length)
  have "published \<notin> N" using assms(2) not_small_published by (auto simp: small_names_def)
  then show "lookup fs1 (published_dir (root @ [s])) = lookup fs (published_dir (root @ [s]))"
    by (auto simp: assms(1) published_dir_def with_links_def)
  have "published_dir (root @ [s]) \<noteq> root @ [s1]" by (simp add: published_dir_def)
  then show "entries fs1 (published_dir (root @ [s])) = entries fs (published_dir (root @ [s]))"
    using entries_with_links [OF assms] by simp
  show "lookup fs1 q = lookup fs q" if "prefix q root"
  proof -
    from that have "length q \<le> length root" by (rule prefix_length_le)
    then show ?thesis by (simp add: assms(1) with_links_other_length)
  qed
qed

lemma after_links_real_dir:
  assumes "lookup fs1 = with_links (lookup fs) (root @ [s1]) N" "small_names N" "real_dir fs root"
  shows "real_dir fs1 root"
  by (rule real_dir_cong [OF assms(3)]) (rule after_links(4) [OF assms(1,2)])

lemma after_links_services_ok:
  assumes "lookup fs1 = with_links (lookup fs) (root @ [s1]) N" "small_names N"
    "services_ok fs root ss"
  shows "services_ok fs1 root ss"
  using assms(3) unfolding services_ok_def list_all_iff
  by (simp add: after_links(1,2) [OF assms(1,2)])

lemma new_set_after_links:
  assumes l: "lookup fs1 = with_links (lookup fs) (root @ [s1]) N"
    and N: "N = new_set fs root s1 A" and A: "small_names A"
    and r: "real_dir fs root"
    and s: "plain_name s" "lookup fs (root @ [s]) = None \<or> lookup fs (root @ [s]) = Some Dir"
      "\<not> is_link (lookup fs (published_dir (root @ [s])))"
  shows "new_set fs1 root s A = (if s = s1 then {} else new_set fs root s A)"
proof -
  have sN: "small_names N" using A N by (auto simp: small_names_def new_set_def split: if_splits)
  note al = after_links [OF l sN]
  from s(2) show ?thesis
  proof
    assume "lookup fs (root @ [s]) = None"
    then show ?thesis by (simp add: new_set_def al(1))
  next
    assume d: "lookup fs (root @ [s]) = Some Dir"
    have r0: "real_dir fs (root @ [s])" using r s(1) d by (simp add: real_dir_snoc)
    have r1: "real_dir fs1 (root @ [s])"
      using after_links_real_dir [OF l sN r] s(1) d by (simp add: real_dir_snoc al(1))
    have p1: "\<not> is_link (lookup fs1 (published_dir (root @ [s])))" using s(3) by (simp add: al(2))
    have m: "set (managed_small fs1 (root @ [s])) =
        set (managed_small fs (root @ [s])) \<union> (if s = s1 then N else {})"
    proof -
      have e1: "entries fs1 (root @ [s]) = entries fs (root @ [s]) \<union> (if s = s1 then N else {})"
        using entries_with_links [OF l sN, of "root @ [s]"] by simp
      show ?thesis
        unfolding managed_small_set [OF r1 p1] managed_small_set [OF r0 s(3)] al(2) al(3) e1
        by auto
    qed
    show ?thesis
    proof (cases "s = s1")
      case True
      with m have "set (managed_small fs1 (root @ [s1])) = set (managed_small fs (root @ [s1])) \<union> N"
        by simp
      moreover have "N = A - set (managed_small fs (root @ [s1]))"
        using N d True by (simp add: new_set_def)
      ultimately have "A - set (managed_small fs1 (root @ [s1])) = {}" by blast
      then show ?thesis using True by (simp add: new_set_def)
    next
      case False
      then show ?thesis by (simp add: new_set_def al(1) m)
    qed
  qed
qed

lemma distributed_Nil: "distributed fs root [] A = lookup fs"
  by (rule ext) (simp add: distributed_def)

lemma distributed_step:
  assumes l: "lookup fs1 = with_links (lookup fs) (root @ [s1]) N"
    and N: "N = new_set fs root s1 A" and A: "small_names A"
    and r: "real_dir fs root" and ok: "services_ok fs root ss"
  shows "distributed fs1 root ss A = distributed fs root (s1 # ss) A"
proof (rule ext)
  fix q
  have ns: "\<And>s. s \<in> set ss \<Longrightarrow> new_set fs1 root s A = (if s = s1 then {} else new_set fs root s A)"
  proof -
    fix s assume "s \<in> set ss"
    from services_okD [OF ok this] show "new_set fs1 root s A = (if s = s1 then {} else new_set fs root s A)"
      using new_set_after_links [OF l N A r] by blast
  qed
  let ?img = "\<lambda>fs s. (\<lambda>n. root @ [s, n]) ` new_set fs root s A"
  have c: "(\<exists>s\<in>set ss. q \<in> ?img fs1 s) \<longleftrightarrow> (\<exists>s\<in>set ss. s \<noteq> s1 \<and> q \<in> ?img fs s)"
    using ns by (metis (no_types, lifting) empty_iff image_empty)
  have w: "lookup fs1 q = (if q \<in> ?img fs s1 then Some (Link False [pardir, name q]) else lookup fs q)"
    by (simp add: l with_links_def N)
  show "distributed fs1 root ss A q = distributed fs root (s1 # ss) A q"
    unfolding distributed_def c w by auto
qed

lemma small_names_empty: "small_names {}"
  by (simp add: small_names_def)

lemma small_names_new_set: "small_names A \<Longrightarrow> small_names (new_set fs root s A)"
  by (auto simp: small_names_def new_set_def split: if_splits)

lemma add_new_small_files_loop_closed:
  assumes "real_dir fs root" "services_ok fs root subs" "distinct all_small"
    "small_names (set all_small)"
  shows "\<exists>fs'. add_new_small_files_loop root all_small subs fs = Inr fs' \<and>
           lookup fs' = distributed fs root subs (set all_small)"
  using assms(1,2)
proof (induction subs arbitrary: fs)
  case Nil
  then show ?case by (simp add: distributed_Nil)
next
  case (Cons s1 ss)
  let ?A = "set all_small" and ?N = "new_set fs root s1 (set all_small)"
  from Cons.prems(2) have s1: "plain_name s1"
      "lookup fs (root @ [s1]) = None \<or> lookup fs (root @ [s1]) = Some Dir"
      "\<not> is_link (lookup fs (published_dir (root @ [s1])))" "services_ok fs root ss"
    by (simp_all add: services_ok_Cons)
  have "\<exists>fs1. add_new_for_service all_small (root @ [s1]) fs = Inr fs1 \<and>
      lookup fs1 = with_links (lookup fs) (root @ [s1]) ?N"
    using s1(2)
  proof
    assume n: "lookup fs (root @ [s1]) = None"
    from add_new_for_service_absent(1) [OF Cons.prems(1) s1(1) n, of all_small]
      add_new_for_service_absent(2) [OF Cons.prems(1) s1(1) n, of ?A]
    show ?thesis by (simp add: with_links_empty)
  next
    assume d: "lookup fs (root @ [s1]) = Some Dir"
    from assms(4) have "\<forall>n\<in>set all_small. plain_name n \<and> match_small n"
      by (simp add: small_names_def)
    from add_new_for_service_dir [OF Cons.prems(1) s1(1) d s1(3) assms(3) this]
    show ?thesis .
  qed
  then obtain fs1 where f1: "add_new_for_service all_small (root @ [s1]) fs = Inr fs1"
    and l1: "lookup fs1 = with_links (lookup fs) (root @ [s1]) ?N" by blast
  have sN: "small_names ?N" by (rule small_names_new_set [OF assms(4)])
  have r1: "real_dir fs1 root" by (rule after_links_real_dir [OF l1 sN Cons.prems(1)])
  have ok1: "services_ok fs1 root ss" by (rule after_links_services_ok [OF l1 sN s1(4)])
  from Cons.IH [OF r1 ok1] obtain fs2 where
    f2: "add_new_small_files_loop root all_small ss fs1 = Inr fs2"
      and l2: "lookup fs2 = distributed fs1 root ss ?A" by blast
  have "add_new_small_files_loop root all_small (s1 # ss) fs = Inr fs2"
    by (simp add: f1 f2 bind_r_def)
  moreover have "lookup fs2 = distributed fs root (s1 # ss) ?A"
    unfolding l2 by (rule distributed_step [OF l1 refl assms(4) Cons.prems(1) s1(4)])
  ultimately show ?case by blast
qed

lemma name_small: "name (small src) = stem (source_path src) @ ''_small.jpg''"
  by (cases src) (simp_all add: sibling_def name_snoc)

lemma match_small_suffix: "match_small (x @ ''_small.jpg'')"
proof -
  have "''_small.jpg'' = ''_small'' @ ''.jpg''" by simp
  then have "x @ ''_small.jpg'' = x @ ''_small'' @ ''.jpg''" by (simp only:)
  then show ?thesis unfolding match_small_def by (simp only: sublist_appendI)
qed

lemma plain_small_suffix: "plain_name (x @ ''_small.jpg'')"
proof -
  have "x @ ''_small.jpg'' \<noteq> curdir"
  proof
    assume "x @ ''_small.jpg'' = curdir"
    then have "length (x @ ''_small.jpg'') = length curdir" by (simp only:)
    then show False by (simp add: curdir_def)
  qed
  moreover have "x @ ''_small.jpg'' \<noteq> pardir"
  proof
    assume "x @ ''_small.jpg'' = pardir"
    then have "length (x @ ''_small.jpg'') = length pardir" by (simp only:)
    then show False by (simp add: pardir_def)
  qed
  ultimately show ?thesis by (simp add: plain_name_def)
qed

lemma small_names_all_small: "small_names (set (remdups (map name (existing_small d fs))))"
proof -
  have "\<And>n. n \<in> set (map name (existing_small d fs)) \<Longrightarrow> plain_name n \<and> match_small n"
  proof -
    fix n assume "n \<in> set (map name (existing_small d fs))"
    then obtain src where "n = name (small src)" by (auto simp: existing_small_def)
    then show "plain_name n \<and> match_small n"
      by (simp only: name_small plain_small_suffix match_small_suffix)
  qed
  then show ?thesis by (simp add: small_names_def)
qed

lemma add_new_small_files_closed:
  assumes "real_dir fs (rootdir d)" "services_ok fs (rootdir d) (known_subdirs d)"
  shows "\<exists>fs'. add_new_small_files d fs = Inr fs' \<and>
           lookup fs' = distributed fs (rootdir d) (known_subdirs d)
             (set (remdups (map name (existing_small d fs))))"
  unfolding add_new_small_files_def
  by (rule add_new_small_files_loop_closed [OF assms distinct_remdups small_names_all_small])

lemma new_small_images_from_eq:
  "new_small_images_from fs root A subs =
     map (\<lambda>s. (root @ [s], new_names fs A (root @ [s])))
       (filter (\<lambda>s. exists fs (root @ [s]) \<and> new_names fs A (root @ [s]) \<noteq> []) subs)"
  by (induction subs) (simp_all add: Let_def)

lemma set_new_names: "set (new_names fs A sd) = set A - set (managed_small fs sd)"
  by (auto simp: new_names_def)

lemma set_all_small:
  "set (remdups (map name (existing_small d fs))) =
     name ` {p \<in> small ` set (sources d). exists fs p}"
  by (auto simp: existing_small_def)

lemma set_managed_small:
  "set (managed_small fs sd) =
     name ` set (glob match_small fs sd) \<union>
     (if exists fs (published_dir sd) then name ` set (glob match_small fs (published_dir sd))
      else {})"
  by (simp add: managed_small_def)

lemma distributed_cases:
  assumes r: "real_dir fs root" and ok: "services_ok fs root subs" and A: "small_names A"
    and q: "\<exists>s\<in>set subs. q \<in> (\<lambda>n. root @ [s, n]) ` new_set fs root s A"
  shows "lookup fs q = None"
    and "\<And>s n. q = root @ [s, n] \<Longrightarrow>
           \<not> (lookup fs (published_dir (root @ [s])) = Some Dir \<and>
              lookup fs (published_dir (root @ [s]) @ [n]) \<noteq> None)"
proof -
  from q obtain s n where s: "s \<in> set subs" and n: "n \<in> new_set fs root s A" and qe: "q = root @ [s, n]"
    by blast
  from n have d: "lookup fs (root @ [s]) = Some Dir" and nA: "n \<in> A"
    and nm: "n \<notin> set (managed_small fs (root @ [s]))"
    by (auto simp: new_set_def split: if_splits)
  from services_okD [OF ok s] have ps: "plain_name s"
    and pl: "\<not> is_link (lookup fs (published_dir (root @ [s])))" by simp_all
  have rs: "real_dir fs (root @ [s])" using r ps d by (simp add: real_dir_snoc)
  from nA A have pm: "plain_name n" "match_small n" by (simp_all add: small_names_def)
  from nm have e: "n \<notin> entries fs (root @ [s])"
    and e2: "lookup fs (published_dir (root @ [s])) = Some Dir \<longrightarrow>
        n \<notin> entries fs (published_dir (root @ [s]))"
    by (auto simp: managed_small_set [OF rs pl] split: if_splits)
  from entries_None [OF pm e] show "lookup fs q = None" by (simp add: qe)
  show "\<not> (lookup fs (published_dir (root @ [s'])) = Some Dir \<and>
              lookup fs (published_dir (root @ [s']) @ [n']) \<noteq> None)" if "q = root @ [s', n']" for s' n'
  proof -
    from that qe have "s' = s" "n' = n" by simp_all
    then show ?thesis using e2 pm by (auto simp: entries_def)
  qed
qed


text \<open>
  C4. \<open>new_small_images\<close> yields, in service order, the pair (service directory, names)
  for each service whose directory exists and for which the names are not empty, where
  the names are the names of the existing previews of the sources without the names
  matching \<^verbatim>\<open>*_small*\<close> that the service directory or its \<^verbatim>\<open>published\<close> child lists.
  Consequently, on a working directory of real directories, the distribution step does
  not raise and leaves exactly the filesystem \<open>distributed\<close>: it replaces no entry that
  was there, and it makes no link \<^verbatim>\<open>service/n\<close> for a name \<open>n\<close> that the \<^verbatim>\<open>published\<close>
  directory of the service holds.
\<close>

theorem new_small_images_dedup:
  "new_small_images d fs =
     map (\<lambda>s. (rootdir d @ [s],
                new_names fs (remdups (map name (existing_small d fs))) (rootdir d @ [s])))
       (filter (\<lambda>s. exists fs (rootdir d @ [s]) \<and>
                 new_names fs (remdups (map name (existing_small d fs))) (rootdir d @ [s]) \<noteq> [])
          (known_subdirs d)) \<and>
   set (new_names fs (remdups (map name (existing_small d fs))) sd) =
     name ` {p \<in> small ` set (sources d). exists fs p} - set (managed_small fs sd) \<and>
   set (managed_small fs sd) =
     name ` set (glob match_small fs sd) \<union>
     (if exists fs (published_dir sd) then name ` set (glob match_small fs (published_dir sd))
      else {}) \<and>
   (real_dir fs (rootdir d) \<and> services_ok fs (rootdir d) (known_subdirs d) \<longrightarrow>
      (\<exists>fs'. add_new_small_files d fs = Inr fs' \<and>
         (\<forall>q. lookup fs' q =
            distributed fs (rootdir d) (known_subdirs d)
              (set (remdups (map name (existing_small d fs)))) q) \<and>
         (\<forall>q. lookup fs q \<noteq> None \<longrightarrow> lookup fs' q = lookup fs q) \<and>
         (\<forall>s n. lookup fs (published_dir (rootdir d @ [s])) = Some Dir \<and>
                lookup fs (published_dir (rootdir d @ [s]) @ [n]) \<noteq> None \<longrightarrow>
                lookup fs' (rootdir d @ [s, n]) = lookup fs (rootdir d @ [s, n]))))"
proof (intro conjI impI)
  show "new_small_images d fs =
     map (\<lambda>s. (rootdir d @ [s],
                new_names fs (remdups (map name (existing_small d fs))) (rootdir d @ [s])))
       (filter (\<lambda>s. exists fs (rootdir d @ [s]) \<and>
                 new_names fs (remdups (map name (existing_small d fs))) (rootdir d @ [s]) \<noteq> [])
          (known_subdirs d))"
    unfolding new_small_images_def by (rule new_small_images_from_eq)
  show "set (new_names fs (remdups (map name (existing_small d fs))) sd) =
     name ` {p \<in> small ` set (sources d). exists fs p} - set (managed_small fs sd)"
    unfolding set_new_names set_all_small by (rule refl)
  show "set (managed_small fs sd) =
     name ` set (glob match_small fs sd) \<union>
     (if exists fs (published_dir sd) then name ` set (glob match_small fs (published_dir sd))
      else {})"
    by (rule set_managed_small)
next
  let ?A = "set (remdups (map name (existing_small d fs)))"
  assume a: "real_dir fs (rootdir d) \<and> services_ok fs (rootdir d) (known_subdirs d)"
  then have r: "real_dir fs (rootdir d)" and ok: "services_ok fs (rootdir d) (known_subdirs d)"
    by simp_all
  from add_new_small_files_closed [OF r ok] obtain fs' where
    f: "add_new_small_files d fs = Inr fs'"
    and l: "lookup fs' = distributed fs (rootdir d) (known_subdirs d) ?A" by blast
  note dc = distributed_cases [OF r ok small_names_all_small]
  have 1: "\<forall>q. lookup fs' q = distributed fs (rootdir d) (known_subdirs d) ?A q"
    by (simp add: l)
  have 2: "\<forall>q. lookup fs q \<noteq> None \<longrightarrow> lookup fs' q = lookup fs q"
  proof (intro allI impI)
    fix q assume "lookup fs q \<noteq> None"
    with dc(1) [of q d fs] have "\<not> (\<exists>s\<in>set (known_subdirs d).
        q \<in> (\<lambda>n. rootdir d @ [s, n]) ` new_set fs (rootdir d) s ?A)" by blast
    then show "lookup fs' q = lookup fs q" unfolding l distributed_def by (simp only: if_False)
  qed
  have 3: "\<forall>s n. lookup fs (published_dir (rootdir d @ [s])) = Some Dir \<and>
                lookup fs (published_dir (rootdir d @ [s]) @ [n]) \<noteq> None \<longrightarrow>
                lookup fs' (rootdir d @ [s, n]) = lookup fs (rootdir d @ [s, n])"
  proof (intro allI impI)
    fix s n
    assume p: "lookup fs (published_dir (rootdir d @ [s])) = Some Dir \<and>
                lookup fs (published_dir (rootdir d @ [s]) @ [n]) \<noteq> None"
    with dc(2) [of "rootdir d @ [s, n]" d fs s n]
    have "\<not> (\<exists>s'\<in>set (known_subdirs d).
        rootdir d @ [s, n] \<in> (\<lambda>n. rootdir d @ [s', n]) ` new_set fs (rootdir d) s' ?A)" by blast
    then show "lookup fs' (rootdir d @ [s, n]) = lookup fs (rootdir d @ [s, n])"
      unfolding l distributed_def by (simp only: if_False)
  qed
  from f 1 2 3 show "\<exists>fs'. add_new_small_files d fs = Inr fs' \<and>
         (\<forall>q. lookup fs' q =
            distributed fs (rootdir d) (known_subdirs d)
              (set (remdups (map name (existing_small d fs)))) q) \<and>
         (\<forall>q. lookup fs q \<noteq> None \<longrightarrow> lookup fs' q = lookup fs q) \<and>
         (\<forall>s n. lookup fs (published_dir (rootdir d @ [s])) = Some Dir \<and>
                lookup fs (published_dir (rootdir d @ [s]) @ [n]) \<noteq> None \<longrightarrow>
                lookup fs' (rootdir d @ [s, n]) = lookup fs (rootdir d @ [s, n]))"
    by blast
qed

theorem new_small_images_dedup_witness:
  "(real_dir fs_c4 (rootdir dir_c4) \<and> services_ok fs_c4 (rootdir dir_c4) (known_subdirs dir_c4)) \<and>
   new_small_images dir_c4 fs_c4 =
     [([''w'', ''t1''], [''b_small.jpg'']), ([''w'', ''t2''], [''a_small.jpg''])] \<and>
   (\<exists>fs'. add_new_small_files dir_c4 fs_c4 = Inr fs' \<and>
      lookup fs' [''w'', ''t1'', ''b_small.jpg''] = Some (Link False [''..'', ''b_small.jpg'']) \<and>
      lookup fs' [''w'', ''t1'', ''a_small.jpg''] = None)"
proof -
  have h: "real_dir fs_c4 (rootdir dir_c4) \<and> services_ok fs_c4 (rootdir dir_c4) (known_subdirs dir_c4)"
    by code_simp
  note t = new_small_images_dedup [where d = dir_c4 and fs = fs_c4 and sd = "[]"]
  have e0: "map (\<lambda>s. (rootdir dir_c4 @ [s],
                new_names fs_c4 (remdups (map name (existing_small dir_c4 fs_c4))) (rootdir dir_c4 @ [s])))
       (filter (\<lambda>s. exists fs_c4 (rootdir dir_c4 @ [s]) \<and>
                 new_names fs_c4 (remdups (map name (existing_small dir_c4 fs_c4))) (rootdir dir_c4 @ [s]) \<noteq> [])
          (known_subdirs dir_c4)) =
     [([''w'', ''t1''], [''b_small.jpg'']), ([''w'', ''t2''], [''a_small.jpg''])]"
    by code_simp
  have a: "new_small_images dir_c4 fs_c4 =
     [([''w'', ''t1''], [''b_small.jpg'']), ([''w'', ''t2''], [''a_small.jpg''])]"
    by (rule trans [OF t [THEN conjunct1] e0])
  from t [THEN conjunct2, THEN conjunct2, THEN conjunct2, THEN mp, OF h] obtain fs' where
    f: "add_new_small_files dir_c4 fs_c4 = Inr fs'"
    and l: "\<And>q. lookup fs' q = distributed fs_c4 (rootdir dir_c4) (known_subdirs dir_c4)
              (set (remdups (map name (existing_small dir_c4 fs_c4)))) q"
    and p: "\<And>s n. lookup fs_c4 (published_dir (rootdir dir_c4 @ [s])) = Some Dir \<and>
                lookup fs_c4 (published_dir (rootdir dir_c4 @ [s]) @ [n]) \<noteq> None \<Longrightarrow>
                lookup fs' (rootdir dir_c4 @ [s, n]) = lookup fs_c4 (rootdir dir_c4 @ [s, n])"
    by blast
  have e1: "distributed fs_c4 (rootdir dir_c4) (known_subdirs dir_c4)
              (set (remdups (map name (existing_small dir_c4 fs_c4)))) [''w'', ''t1'', ''b_small.jpg'']
      = Some (Link False [''..'', ''b_small.jpg''])"
    by code_simp
  have e2: "lookup fs_c4 (published_dir (rootdir dir_c4 @ [''t1''])) = Some Dir \<and>
                lookup fs_c4 (published_dir (rootdir dir_c4 @ [''t1'']) @ [''a_small.jpg'']) \<noteq> None"
    by code_simp
  have e3: "rootdir dir_c4 @ [''t1'', ''a_small.jpg''] = [''w'', ''t1'', ''a_small.jpg'']"
    "lookup fs_c4 [''w'', ''t1'', ''a_small.jpg''] = None"
    by code_simp+
  have b: "lookup fs' [''w'', ''t1'', ''a_small.jpg''] = None"
    using p [OF e2] unfolding e3 .
  have "add_new_small_files dir_c4 fs_c4 = Inr fs' \<and>
      lookup fs' [''w'', ''t1'', ''b_small.jpg''] = Some (Link False [''..'', ''b_small.jpg'']) \<and>
      lookup fs' [''w'', ''t1'', ''a_small.jpg''] = None"
    by (rule conjI [OF f conjI [OF trans [OF l e1] b]])
  then have "\<exists>fs'. add_new_small_files dir_c4 fs_c4 = Inr fs' \<and>
      lookup fs' [''w'', ''t1'', ''b_small.jpg''] = Some (Link False [''..'', ''b_small.jpg'']) \<and>
      lookup fs' [''w'', ''t1'', ''a_small.jpg''] = None"
    by (rule exI [of _ fs'])
  then show ?thesis by (rule conjI [OF h conjI [OF a]])
qed

subsection \<open>Path resolution\<close>

lemma walk_notdir: "lookup fs cur \<noteq> Some Dir \<Longrightarrow> walk f fs cur (c # cs) = Inl NotADirectoryError"
  by simp

lemma walk_curdir:
  "lookup fs cur = Some Dir \<Longrightarrow> c = curdir \<Longrightarrow> walk f fs cur (c # cs) = walk f fs cur cs"
  by simp

lemma walk_pardir:
  "lookup fs cur = Some Dir \<Longrightarrow> c \<noteq> curdir \<Longrightarrow> c = pardir \<Longrightarrow>
   walk f fs cur (c # cs) = walk f fs (butlast cur) cs"
  by simp

lemma walk_absent:
  "lookup fs cur = Some Dir \<Longrightarrow> plain_name c \<Longrightarrow> lookup fs (cur @ [c]) = None \<Longrightarrow>
   walk f fs cur (c # cs) = Inl FileNotFoundError"
  by (simp add: plain_name_def)

lemma walk_enter:
  "lookup fs cur = Some Dir \<Longrightarrow> plain_name c \<Longrightarrow> lookup fs (cur @ [c]) = Some x \<Longrightarrow>
   \<not> is_link (Some x) \<Longrightarrow> walk f fs cur (c # cs) = walk f fs (cur @ [c]) cs"
  by (cases x) (simp_all add: plain_name_def)

lemma walk_link0:
  "lookup fs cur = Some Dir \<Longrightarrow> plain_name c \<Longrightarrow> lookup fs (cur @ [c]) = Some (Link ab tgt) \<Longrightarrow>
   walk 0 fs cur (c # cs) = Inl TooManyLinks"
  by (simp add: plain_name_def)

lemma walk_link:
  "lookup fs cur = Some Dir \<Longrightarrow> plain_name c \<Longrightarrow> lookup fs (cur @ [c]) = Some (Link ab tgt) \<Longrightarrow>
   walk (Suc f) fs cur (c # cs) = walk f fs (if ab then [] else cur) (tgt @ cs)"
  by (simp add: plain_name_def)

lemma walk_step_cases [case_names notdir curdir pardir absent enter link0 link]:
  obtains "lookup fs cur \<noteq> Some Dir"
  | "lookup fs cur = Some Dir" "c = curdir"
  | "lookup fs cur = Some Dir" "c \<noteq> curdir" "c = pardir"
  | "lookup fs cur = Some Dir" "plain_name c" "lookup fs (cur @ [c]) = None"
  | x where "lookup fs cur = Some Dir" "plain_name c" "lookup fs (cur @ [c]) = Some x"
      "\<not> is_link (Some x)"
  | ab tgt where "lookup fs cur = Some Dir" "plain_name c"
      "lookup fs (cur @ [c]) = Some (Link ab tgt)" "f = 0"
  | ab tgt f' where "lookup fs cur = Some Dir" "plain_name c"
      "lookup fs (cur @ [c]) = Some (Link ab tgt)" "f = Suc f'"
proof (cases "lookup fs cur = Some Dir")
  case False
  then show ?thesis by (rule that(1))
next
  case d: True
  show ?thesis
  proof (cases "c = curdir")
    case True
    with d show ?thesis by (rule that(2))
  next
    case nc: False
    show ?thesis
    proof (cases "c = pardir")
      case True
      with d nc show ?thesis by (rule that(3))
    next
      case np: False
      with nc have p: "plain_name c" by (simp add: plain_name_def)
      show ?thesis
      proof (cases "lookup fs (cur @ [c])")
        case None
        with d p show ?thesis by (rule that(4))
      next
        case (Some x)
        show ?thesis
        proof (cases x)
          case (File t)
          with Some have "\<not> is_link (Some x)" by simp
          with d p Some show ?thesis by (rule that(5))
        next
          case Dir
          with Some have "\<not> is_link (Some x)" by simp
          with d p Some show ?thesis by (rule that(5))
        next
          case (Link ab tgt)
          with Some have l: "lookup fs (cur @ [c]) = Some (Link ab tgt)" by simp
          show ?thesis
          proof (cases f)
            case 0
            with d p l show ?thesis by (rule that(6))
          next
            case (Suc f')
            with d p l show ?thesis by (rule that(7))
          qed
        qed
      qed
    qed
  qed
qed

lemma walk_induct' [case_names Nil Cons]:
  assumes "\<And>f fs cur. P f fs cur []"
    and "\<And>f fs cur c cs.
      (lookup fs cur = Some Dir \<Longrightarrow> c = curdir \<Longrightarrow> P f fs cur cs) \<Longrightarrow>
      (lookup fs cur = Some Dir \<Longrightarrow> c \<noteq> curdir \<Longrightarrow> c = pardir \<Longrightarrow> P f fs (butlast cur) cs) \<Longrightarrow>
      (\<And>x. lookup fs cur = Some Dir \<Longrightarrow> plain_name c \<Longrightarrow> lookup fs (cur @ [c]) = Some x \<Longrightarrow>
          \<not> is_link (Some x) \<Longrightarrow> P f fs (cur @ [c]) cs) \<Longrightarrow>
      (\<And>ab tgt f'. lookup fs cur = Some Dir \<Longrightarrow> plain_name c \<Longrightarrow>
          lookup fs (cur @ [c]) = Some (Link ab tgt) \<Longrightarrow> f = Suc f' \<Longrightarrow>
          P f' fs (if ab then [] else cur) (tgt @ cs)) \<Longrightarrow>
      P f fs cur (c # cs)"
  shows "P f fs cur cs"
proof (induction f fs cur cs rule: walk.induct)
  case (1 fuel fs cur)
  show ?case by (rule assms(1))
next
  case (2 fuel fs cur c cs)
  show ?case
  proof (rule assms(2))
    show "P fuel fs cur cs" if "lookup fs cur = Some Dir" "c = curdir"
      using that by (intro "2.IH"(1)) simp_all
    show "P fuel fs (butlast cur) cs" if "lookup fs cur = Some Dir" "c \<noteq> curdir" "c = pardir"
      using that by (intro "2.IH"(2)) simp_all
    show "P fuel fs (cur @ [c]) cs"
      if "lookup fs cur = Some Dir" "plain_name c" "lookup fs (cur @ [c]) = Some x"
        "\<not> is_link (Some x)" for x
    proof (cases x)
      case (File t)
      with that show ?thesis by (intro "2.IH"(3) [of x t]) (simp_all add: plain_name_def)
    next
      case Dir
      with that show ?thesis by (intro "2.IH"(4) [of x]) (simp_all add: plain_name_def)
    next
      case (Link ab tgt)
      with that(4) show ?thesis by simp
    qed
    show "P f' fs (if ab then [] else cur) (tgt @ cs)"
      if "lookup fs cur = Some Dir" "plain_name c" "lookup fs (cur @ [c]) = Some (Link ab tgt)"
        "fuel = Suc f'" for ab tgt f'
      using that by (intro "2.IH"(5) [of "Link ab tgt" ab tgt f']) (simp_all add: plain_name_def)
  qed
qed

lemmas walk_steps = walk_notdir walk_curdir walk_pardir walk_absent walk_enter walk_link0 walk_link

lemma walk_cong: "lookup fs = lookup fs' \<Longrightarrow> walk f fs cur cs = walk f fs' cur cs"
proof (induction f fs cur cs rule: walk_induct')
  case (Nil f fs cur)
  show ?case by simp
next
  case (Cons f fs cur c cs)
  note eq = Cons.prems
  show ?case
  proof (cases rule: walk_step_cases [where fs = fs and cur = cur and c = c and f = f])
    case notdir
    then show ?thesis using eq by (simp add: walk_notdir del: walk.simps)
  next
    case curdir
    then show ?thesis using eq Cons.IH(1) by (simp add: walk_curdir del: walk.simps)
  next
    case pardir
    then show ?thesis using eq Cons.IH(2) by (simp add: walk_pardir del: walk.simps)
  next
    case absent
    then show ?thesis using eq by (simp add: walk_absent del: walk.simps)
  next
    case (enter x)
    then have "walk f fs cur (c # cs) = walk f fs (cur @ [c]) cs"
      "walk f fs' cur (c # cs) = walk f fs' (cur @ [c]) cs"
      using eq by (simp_all add: walk_enter del: walk.simps)
    then show ?thesis using Cons.IH(3) [OF enter eq] by simp
  next
    case (link0 ab tgt)
    then show ?thesis using eq by (simp add: walk_link0 del: walk.simps)
  next
    case (link ab tgt f')
    then have "walk f fs cur (c # cs) = walk f' fs (if ab then [] else cur) (tgt @ cs)"
      "walk f fs' cur (c # cs) = walk f' fs' (if ab then [] else cur) (tgt @ cs)"
      using eq by (simp_all add: walk_link del: walk.simps)
    then show ?thesis using Cons.IH(4) [OF link eq] by simp
  qed
qed











subsection \<open>Step 5: repairing published links\<close>


























subsection \<open>Step 1: creating the service directories\<close>



lemma with_dirs_empty: "with_dirs base {} = base"
  by (rule ext) (simp add: with_dirs_def)

lemma with_dirs_union: "with_dirs (with_dirs base A) B = with_dirs base (A \<union> B)"
  by (rule ext) (auto simp: with_dirs_def)

lemma with_dirs_present: "base q \<noteq> None \<Longrightarrow> with_dirs base D q = base q"
  by (simp add: with_dirs_def)

lemma with_dirs_real_dir:
  assumes "real_dir fs d" "lookup fs' = with_dirs (lookup fs) D"
  shows "real_dir fs' d"
proof (rule real_dir_cong [OF assms(1)])
  fix q assume "prefix q d"
  then have "lookup fs q = Some Dir" using assms(1) by (simp add: real_dir_def list_all_iff)
  then show "lookup fs' q = lookup fs q" by (simp add: assms(2) with_dirs_def)
qed

lemma mkdir_if_missing:
  assumes "real_dir fs d" "plain_name n" "\<not> is_link (lookup fs (d @ [n]))"
  shows "\<exists>fs'. (if \<not> exists fs (d @ [n]) then mkdir (d @ [n]) fs else Inr fs) = Inr fs' \<and>
           lookup fs' = with_dirs (lookup fs) {d @ [n]}"
proof (cases "lookup fs (d @ [n])")
  case None
  then have "\<not> exists fs (d @ [n])" using exists_real_child [OF assms] by simp
  moreover have "mkdir (d @ [n]) fs = Inr (AList.update (d @ [n]) Dir fs)"
    using None by (simp add: mkdir_real [OF assms(1,2)])
  moreover have "lookup (AList.update (d @ [n]) Dir fs) = with_dirs (lookup fs) {d @ [n]}"
    using None by (intro ext) (auto simp: lookup_update with_dirs_def)
  ultimately show ?thesis by simp
next
  case (Some x)
  then have "exists fs (d @ [n])" using exists_real_child [OF assms] by simp
  moreover have "lookup fs = with_dirs (lookup fs) {d @ [n]}"
    using Some by (intro ext) (auto simp: with_dirs_def)
  ultimately show ?thesis by simp
qed

lemma with_dirs_is_link: "is_link (with_dirs base D q) = is_link (base q)"
  by (cases "base q") (simp_all add: with_dirs_def)

lemma with_dirs_None: "with_dirs base D q = None \<Longrightarrow> base q = None"
  by (simp add: with_dirs_def split: if_splits)

lemma with_dirs_None_or_Dir:
  "base q = None \<or> base q = Some Dir \<Longrightarrow> with_dirs base D q = None \<or> with_dirs base D q = Some Dir"
  by (auto simp: with_dirs_def)

lemma with_dirs_outside: "q \<notin> D \<Longrightarrow> with_dirs base D q = base q"
  by (simp add: with_dirs_def)

lemma subdir_paths_Cons:
  "subdir_paths root (s # ss) = {root @ [s], published_dir (root @ [s])} \<union> subdir_paths root ss"
  by (auto simp: subdir_paths_def)

lemma add_missing_subdirs_closed:
  assumes "real_dir fs root" "services_ok fs root subs" "no_orphans fs root subs"
  shows "\<exists>fs'. add_missing_subdirs_loop root subs fs = Inr fs' \<and>
           lookup fs' = with_dirs (lookup fs) (subdir_paths root subs)"
  using assms
proof (induction subs arbitrary: fs)
  case Nil
  then show ?case by (simp add: subdir_paths_def with_dirs_empty)
next
  case (Cons s ss)
  let ?sd = "root @ [s]" and ?pd = "published_dir (root @ [s])"
  have pd: "?pd = ?sd @ [published]" by (simp add: published_dir_def)
  from Cons.prems(2) have ps: "plain_name s"
    and sd: "lookup fs ?sd = None \<or> lookup fs ?sd = Some Dir"
    and npl: "\<not> is_link (lookup fs ?pd)" and okr: "services_ok fs root ss"
    by (simp_all add: services_ok_Cons)
  from Cons.prems(3) have orr: "no_orphans fs root ss" by (simp add: no_orphans_def)
  from sd have nl: "\<not> is_link (lookup fs ?sd)" by auto
  from mkdir_if_missing [OF Cons.prems(1) ps nl] obtain fs1 where
    f1: "(if \<not> exists fs ?sd then mkdir ?sd fs else Inr fs) = Inr fs1"
    and l1: "lookup fs1 = with_dirs (lookup fs) {?sd}" by blast
  have d1: "lookup fs1 ?sd = Some Dir" using sd by (auto simp: l1 with_dirs_def)
  have r1: "real_dir fs1 ?sd"
    using with_dirs_real_dir [OF Cons.prems(1) l1] ps d1 by (simp add: real_dir_snoc)
  have npl1: "\<not> is_link (lookup fs1 (?sd @ [published]))"
    using npl by (simp add: l1 with_dirs_is_link pd)
  from mkdir_if_missing [OF r1 plain_published npl1, folded pd] obtain fs2 where
    f2: "(if \<not> exists fs1 ?pd then mkdir ?pd fs1 else Inr fs1) = Inr fs2"
    and l2: "lookup fs2 = with_dirs (lookup fs1) {?pd}" by blast
  have l02: "lookup fs2 = with_dirs (lookup fs) {?sd, ?pd}"
    unfolding l2 l1 with_dirs_union by (simp add: insert_commute)
  have r2: "real_dir fs2 root" by (rule with_dirs_real_dir [OF Cons.prems(1) l02])
  have ok2: "services_ok fs2 root ss"
    unfolding services_ok_def list_all_iff
  proof (intro ballI conjI)
    fix s' assume "s' \<in> set ss"
    with okr have a: "plain_name s'"
      "lookup fs (root @ [s']) = None \<or> lookup fs (root @ [s']) = Some Dir"
      "\<not> is_link (lookup fs (published_dir (root @ [s'])))"
      by (simp_all add: services_ok_def list_all_iff)
    from a(1) show "plain_name s'" .
    from a(2) show "lookup fs2 (root @ [s']) = None \<or> lookup fs2 (root @ [s']) = Some Dir"
      unfolding l02 by (rule with_dirs_None_or_Dir)
    from a(3) show "\<not> is_link (lookup fs2 (published_dir (root @ [s'])))"
      by (simp add: l02 with_dirs_is_link)
  qed
  have or2: "no_orphans fs2 root ss"
    unfolding no_orphans_def list_all_iff
  proof (intro ballI impI)
    fix s' assume s': "s' \<in> set ss" and n: "lookup fs2 (root @ [s']) = None"
    from n have n0: "lookup fs (root @ [s']) = None" unfolding l02 by (rule with_dirs_None)
    with orr s' have p0: "lookup fs (published_dir (root @ [s'])) = None"
      by (simp add: no_orphans_def list_all_iff)
    have "s' \<noteq> s" using n l02 sd by (auto simp: with_dirs_def)
    then have "published_dir (root @ [s']) \<notin> {?sd, ?pd}" by (simp add: published_dir_def)
    then show "lookup fs2 (published_dir (root @ [s'])) = None"
      by (simp add: l02 with_dirs_outside p0)
  qed
  from Cons.IH [OF r2 ok2 or2] obtain fs3 where
    f3: "add_missing_subdirs_loop root ss fs2 = Inr fs3"
    and l3: "lookup fs3 = with_dirs (lookup fs2) (subdir_paths root ss)" by blast
  have "add_missing_subdirs_loop root (s # ss) fs = Inr fs3"
    using f1 f2 f3 by (simp add: bind_r_def)
  moreover have "lookup fs3 = with_dirs (lookup fs) (subdir_paths root (s # ss))"
    unfolding l3 l02 with_dirs_union subdir_paths_Cons ..
  ultimately show ?case by blast
qed

subsection \<open>Step 2: materializing previews\<close>

lemma st_mtime_exists: "st_mtime dt fs p = Inr t \<Longrightarrow> exists fs p"
  by (auto simp: st_mtime_def exists_def stat_def split: sum.splits option.splits)

lemma st_mtime_total: "exists fs p \<Longrightarrow> \<exists>t. st_mtime dt fs p = Inr t"
  by (auto simp: st_mtime_def exists_def stat_def split: sum.splits option.splits node.splits)

lemma small_action_create: "\<not> exists fs sm \<Longrightarrow> small_action dt fs lg sm = Inr (Some CREATE)"
  by (simp add: small_action_def)

lemma small_action_mtime:
  assumes "st_mtime dt fs sm = Inr ts" "st_mtime dt fs lg = Inr tlg"
  shows "small_action dt fs lg sm = Inr (if ts < tlg then Some UPDATE else None)"
  using assms st_mtime_exists [OF assms(1)] by (simp add: small_action_def bind_r_def)

lemma create_small_image_absent:
  assumes "exists fs (large fs src)" "\<not> exists fs (small src)"
  shows "create_small_image dt resize src fs =
         Inr (snd (resize (large fs src) (small src) 1024 fs))"
  using assms
  by (simp add: create_small_image_def Let_def small_action_create bind_r_def SMALL_JPEG_WIDTH_def)

lemma create_small_image_mtime:
  assumes "exists fs (large fs src)"
    and "st_mtime dt fs (small src) = Inr ts" "st_mtime dt fs (large fs src) = Inr tlg"
  shows "create_small_image dt resize src fs =
         Inr (if ts < tlg then snd (resize (large fs src) (small src) 1024 fs) else fs)"
  using assms(1)
  by (simp add: create_small_image_def Let_def small_action_mtime [OF assms(2,3)] bind_r_def
      SMALL_JPEG_WIDTH_def)

lemma create_small_image_no_large:
  "\<not> exists fs (large fs src) \<Longrightarrow> create_small_image dt resize src fs = Inr fs"
  by (simp add: create_small_image_def Let_def)

lemma create_small_image_materialize:
  "create_small_image dt resize src fs = Inr (materialize dt resize src fs)"
proof (cases "exists fs (large fs src)")
  case False
  then show ?thesis
    by (simp add: create_small_image_no_large materialize_def preview_due_def)
next
  case lg: True
  show ?thesis
  proof (cases "exists fs (small src)")
    case False
    with lg show ?thesis
      by (simp add: create_small_image_absent materialize_def preview_due_def)
  next
    case True
    from st_mtime_total [OF True] obtain ts where ts: "st_mtime dt fs (small src) = Inr ts" by blast
    from st_mtime_total [OF lg] obtain tlg where tl: "st_mtime dt fs (large fs src) = Inr tlg"
      by blast
    from lg True show ?thesis
      by (simp add: create_small_image_mtime [OF lg ts tl] materialize_def preview_due_def
          older_def ts tl)
  qed
qed

lemma create_missing_small_images_loop_fold:
  "create_missing_small_images_loop dt resize srcs fs = Inr (fold (materialize dt resize) srcs fs)"
  by (induction srcs arbitrary: fs) (simp_all add: create_small_image_materialize bind_r_def)

text \<open>
  C5. The materialization step never raises and is the run over the sources, in order, of
  this decision, each on the filesystem its predecessors have left: for a source whose
  large artifact exists, when the preview is absent the action is CREATE and the
  collaborator is run on (large, small, 1024); when the preview exists and its
  modification time is strictly less than that of the large artifact the action is UPDATE
  and the collaborator is run the same way; when it is greater or equal there is no
  action and the filesystem is left as it is. A path that exists has a modification
  time, so these cases are all there are. A source whose large artifact does not exist
  is skipped. Whatever status the collaborator returns, the loop goes on.
\<close>

theorem create_missing_small_images_cases:
  "create_missing_small_images dt resize d fs =
     Inr (fold (materialize dt resize) (sources d) fs) \<and>
   (exists fs (large fs src) \<and> \<not> exists fs (small src) \<longrightarrow>
      preview_due dt fs src \<and>
      small_action dt fs (large fs src) (small src) = Inr (Some CREATE) \<and>
      create_small_image dt resize src fs =
        Inr (snd (resize (large fs src) (small src) 1024 fs))) \<and>
   (exists fs (large fs src) \<and> st_mtime dt fs (small src) = Inr ts \<and>
    st_mtime dt fs (large fs src) = Inr tlg \<and> ts < tlg \<longrightarrow>
      preview_due dt fs src \<and>
      small_action dt fs (large fs src) (small src) = Inr (Some UPDATE) \<and>
      create_small_image dt resize src fs =
        Inr (snd (resize (large fs src) (small src) 1024 fs))) \<and>
   (exists fs (large fs src) \<and> st_mtime dt fs (small src) = Inr ts \<and>
    st_mtime dt fs (large fs src) = Inr tlg \<and> tlg \<le> ts \<longrightarrow>
      \<not> preview_due dt fs src \<and>
      small_action dt fs (large fs src) (small src) = Inr None \<and>
      create_small_image dt resize src fs = Inr fs) \<and>
   (\<not> exists fs (large fs src) \<longrightarrow>
      \<not> preview_due dt fs src \<and> create_small_image dt resize src fs = Inr fs) \<and>
   (exists fs p \<longrightarrow> (\<exists>t. st_mtime dt fs p = Inr t))"
proof (intro conjI impI)
  show "create_missing_small_images dt resize d fs =
     Inr (fold (materialize dt resize) (sources d) fs)"
    by (simp add: create_missing_small_images_def create_missing_small_images_loop_fold)
next
  assume a: "exists fs (large fs src) \<and> \<not> exists fs (small src)"
  then show "preview_due dt fs src" by (simp add: preview_due_def)
  from a show "small_action dt fs (large fs src) (small src) = Inr (Some CREATE)"
    by (simp add: small_action_create)
  from a show "create_small_image dt resize src fs =
        Inr (snd (resize (large fs src) (small src) 1024 fs))"
    by (simp add: create_small_image_absent)
next
  assume a: "exists fs (large fs src) \<and> st_mtime dt fs (small src) = Inr ts \<and>
    st_mtime dt fs (large fs src) = Inr tlg \<and> ts < tlg"
  then show "preview_due dt fs src" by (simp add: preview_due_def older_def)
  from a show "small_action dt fs (large fs src) (small src) = Inr (Some UPDATE)"
    by (simp add: small_action_mtime)
  from a show "create_small_image dt resize src fs =
        Inr (snd (resize (large fs src) (small src) 1024 fs))"
    using create_small_image_mtime [of fs src dt ts tlg resize] by simp
next
  assume a: "exists fs (large fs src) \<and> st_mtime dt fs (small src) = Inr ts \<and>
    st_mtime dt fs (large fs src) = Inr tlg \<and> tlg \<le> ts"
  then have "exists fs (small src)" using st_mtime_exists by blast
  with a show "\<not> preview_due dt fs src" by (simp add: preview_due_def older_def)
  from a show "small_action dt fs (large fs src) (small src) = Inr None"
    by (simp add: small_action_mtime)
  from a show "create_small_image dt resize src fs = Inr fs"
    using create_small_image_mtime [of fs src dt ts tlg resize] by simp
next
  assume a: "\<not> exists fs (large fs src)"
  then show "\<not> preview_due dt fs src" by (simp add: preview_due_def)
  from a show "create_small_image dt resize src fs = Inr fs" by (rule create_small_image_no_large)
next
  assume "exists fs p"
  then show "\<exists>t. st_mtime dt fs p = Inr t" by (rule st_mtime_total)
qed

theorem create_missing_small_images_cases_witness:
  "create_missing_small_images dir_times_0 (convert_at 9) dir_c5 fs_c5 = Inr fs_c5_after \<and>
   (exists fs_c5 (large fs_c5 (RawSourceImage [''w'', ''a.nef''])) \<and>
    \<not> exists fs_c5 (small (RawSourceImage [''w'', ''a.nef'']))) \<and>
   create_small_image dir_times_0 (convert_at 9) (RawSourceImage [''w'', ''a.nef'']) fs_c5 =
      Inr (fs_c5 @ [([''w'', ''a_small.jpg''], File 9)]) \<and>
   (exists fs_c5 (large fs_c5 (RawSourceImage [''w'', ''b.nef''])) \<and>
    st_mtime dir_times_0 fs_c5 (small (RawSourceImage [''w'', ''b.nef''])) = Inr 6 \<and>
    st_mtime dir_times_0 fs_c5 (large fs_c5 (RawSourceImage [''w'', ''b.nef''])) = Inr 7 \<and>
    (6::nat) < 7) \<and>
   small_action dir_times_0 fs_c5 (large fs_c5 (RawSourceImage [''w'', ''b.nef'']))
      (small (RawSourceImage [''w'', ''b.nef''])) = Inr (Some UPDATE) \<and>
   (exists fs_c5 (large fs_c5 (RawSourceImage [''w'', ''c.nef''])) \<and>
    st_mtime dir_times_0 fs_c5 (small (RawSourceImage [''w'', ''c.nef''])) = Inr 7 \<and>
    st_mtime dir_times_0 fs_c5 (large fs_c5 (RawSourceImage [''w'', ''c.nef''])) = Inr 7 \<and>
    (7::nat) \<le> 7) \<and>
   create_small_image dir_times_0 (convert_at 9) (RawSourceImage [''w'', ''c.nef'']) fs_c5 =
      Inr fs_c5 \<and>
   \<not> exists fs_c5 (large fs_c5 (RawSourceImage [''w'', ''e.nef''])) \<and>
   create_small_image dir_times_0 (convert_at 9) (RawSourceImage [''w'', ''e.nef'']) fs_c5 =
      Inr fs_c5 \<and>
   (exists fs_c5 (large fs_c5 (RawSourceImage [''w'', ''f.nef''])) \<and>
    st_mtime dir_times_0 fs_c5 (small (RawSourceImage [''w'', ''f.nef''])) = Inr 0 \<and>
    st_mtime dir_times_0 fs_c5 (large fs_c5 (RawSourceImage [''w'', ''f.nef''])) = Inr 7 \<and>
    (0::nat) < 7) \<and>
   small_action dir_times_0 fs_c5 (large fs_c5 (RawSourceImage [''w'', ''f.nef'']))
      (small (RawSourceImage [''w'', ''f.nef''])) = Inr (Some UPDATE)"
proof -
  have s': "Inr (fold (materialize dir_times_0 (convert_at 9)) (sources dir_c5) fs_c5) =
      (Inr fs_c5_after :: error + fs)"
    by code_simp
  have a: "exists fs_c5 (large fs_c5 (RawSourceImage [''w'', ''a.nef''])) \<and>
    \<not> exists fs_c5 (small (RawSourceImage [''w'', ''a.nef'']))"
    by code_simp
  have a': "Inr (snd (convert_at 9 (large fs_c5 (RawSourceImage [''w'', ''a.nef'']))
       (small (RawSourceImage [''w'', ''a.nef''])) 1024 fs_c5)) =
     (Inr (fs_c5 @ [([''w'', ''a_small.jpg''], File 9)]) :: error + fs)"
    by code_simp
  have b: "exists fs_c5 (large fs_c5 (RawSourceImage [''w'', ''b.nef''])) \<and>
    st_mtime dir_times_0 fs_c5 (small (RawSourceImage [''w'', ''b.nef''])) = Inr 6 \<and>
    st_mtime dir_times_0 fs_c5 (large fs_c5 (RawSourceImage [''w'', ''b.nef''])) = Inr 7 \<and>
    (6::nat) < 7"
    by code_simp
  have c: "exists fs_c5 (large fs_c5 (RawSourceImage [''w'', ''c.nef''])) \<and>
    st_mtime dir_times_0 fs_c5 (small (RawSourceImage [''w'', ''c.nef''])) = Inr 7 \<and>
    st_mtime dir_times_0 fs_c5 (large fs_c5 (RawSourceImage [''w'', ''c.nef''])) = Inr 7 \<and>
    (7::nat) \<le> 7"
    by code_simp
  have e: "\<not> exists fs_c5 (large fs_c5 (RawSourceImage [''w'', ''e.nef'']))"
    by code_simp
  have f: "exists fs_c5 (large fs_c5 (RawSourceImage [''w'', ''f.nef''])) \<and>
    st_mtime dir_times_0 fs_c5 (small (RawSourceImage [''w'', ''f.nef''])) = Inr 0 \<and>
    st_mtime dir_times_0 fs_c5 (large fs_c5 (RawSourceImage [''w'', ''f.nef''])) = Inr 7 \<and>
    (0::nat) < 7"
    by code_simp
  note ts = create_missing_small_images_cases [where fs = fs_c5 and resize = "convert_at 9"
      and dt = dir_times_0 and d = dir_c5, THEN conjunct1]
  note ta = create_missing_small_images_cases [where fs = fs_c5 and resize = "convert_at 9"
      and dt = dir_times_0 and src = "RawSourceImage [''w'', ''a.nef'']",
      THEN conjunct2, THEN conjunct1, THEN mp, OF a, THEN conjunct2, THEN conjunct2]
  note tb = create_missing_small_images_cases [where fs = fs_c5 and resize = "convert_at 9"
      and dt = dir_times_0 and src = "RawSourceImage [''w'', ''b.nef'']" and ts = 6 and tlg = 7,
      THEN conjunct2, THEN conjunct2, THEN conjunct1, THEN mp, OF b, THEN conjunct2, THEN conjunct1]
  note tc = create_missing_small_images_cases [where fs = fs_c5 and resize = "convert_at 9"
      and dt = dir_times_0 and src = "RawSourceImage [''w'', ''c.nef'']" and ts = 7 and tlg = 7,
      THEN conjunct2, THEN conjunct2, THEN conjunct2, THEN conjunct1, THEN mp, OF c,
      THEN conjunct2, THEN conjunct2]
  note te = create_missing_small_images_cases [where fs = fs_c5 and resize = "convert_at 9"
      and dt = dir_times_0 and src = "RawSourceImage [''w'', ''e.nef'']",
      THEN conjunct2, THEN conjunct2, THEN conjunct2, THEN conjunct2, THEN conjunct1, THEN mp,
      OF e, THEN conjunct2]
  note tf = create_missing_small_images_cases [where fs = fs_c5 and resize = "convert_at 9"
      and dt = dir_times_0 and src = "RawSourceImage [''w'', ''f.nef'']" and ts = 0 and tlg = 7,
      THEN conjunct2, THEN conjunct2, THEN conjunct1, THEN mp, OF f, THEN conjunct2, THEN conjunct1]
  show ?thesis
    by (rule conjI [OF trans [OF ts s'] conjI [OF a conjI [OF trans [OF ta a'] conjI [OF b
          conjI [OF tb conjI [OF c conjI [OF tc conjI [OF e conjI [OF te conjI [OF f tf]]]]]]]]]])
qed

subsection \<open>Guarded creation\<close>

text \<open>
  C3, as stated, fails: a service path that is a dangling symbolic link exists as an entry,
  \<^verbatim>\<open>Path.exists\<close> follows the link and answers False, and the \<^verbatim>\<open>mkdir\<close> that the step then
  makes raises \<^verbatim>\<open>FileExistsError\<close>, which nothing catches: the run is aborted.
\<close>

theorem mkdir_existing_counterexample:
  "lstat fs_c3 [''w'', ''t1''] = Some (Link False [''gone'']) \<and>
   add_missing_subdirs dir_c3 fs_c3 = Inl FileExistsError \<and>
   fixup_run dir_times_0 (convert_at 9) git_dummy [''w''] [''t1''] (fs_c3, ()) = Inl FileExistsError"
  by code_simp

lemma add_missing_subdirs_all_exist:
  "\<forall>s\<in>set subs. exists fs (root @ [s]) \<and> exists fs (published_dir (root @ [s])) \<Longrightarrow>
   add_missing_subdirs_loop root subs fs = Inr fs"
  by (induction subs) (simp_all add: bind_r_def)

lemma add_new_small_files_loop_none:
  "\<forall>s\<in>set subs. exists fs (root @ [s]) \<longrightarrow> new_names fs all_small (root @ [s]) = [] \<Longrightarrow>
   add_new_small_files_loop root all_small subs fs = Inr fs"
  by (induction subs) (simp_all add: bind_r_def add_new_for_service_def Let_def)

lemma with_dirs_keeps: "lookup fs' = with_dirs (lookup fs) D \<Longrightarrow> lookup fs q \<noteq> None \<Longrightarrow> lookup fs' q = lookup fs q"
  by (simp add: with_dirs_def)

lemma add_new_small_files_keeps:
  assumes r: "real_dir fs (rootdir d)" and ok: "services_ok fs (rootdir d) (known_subdirs d)"
  shows "\<exists>fs'. add_new_small_files d fs = Inr fs' \<and>
           (\<forall>q. lookup fs q \<noteq> None \<longrightarrow> lookup fs' q = lookup fs q)"
proof -
  let ?A = "set (remdups (map name (existing_small d fs)))"
  from add_new_small_files_closed [OF r ok] obtain fs' where
    f: "add_new_small_files d fs = Inr fs'"
    and l: "lookup fs' = distributed fs (rootdir d) (known_subdirs d) ?A" by blast
  have "\<forall>q. lookup fs q \<noteq> None \<longrightarrow> lookup fs' q = lookup fs q"
  proof (intro allI impI)
    fix q assume "lookup fs q \<noteq> None"
    with distributed_cases(1) [OF r ok small_names_all_small, of q d fs]
    have "\<not> (\<exists>s\<in>set (known_subdirs d).
        q \<in> (\<lambda>n. rootdir d @ [s, n]) ` new_set fs (rootdir d) s ?A)" by blast
    then show "lookup fs' q = lookup fs q" unfolding l distributed_def by (simp only: if_False)
  qed
  with f show ?thesis by blast
qed

text \<open>
  C3, amended. Creation is guarded, not tolerant. For services whose names are single
  path components: step 1 calls \<^verbatim>\<open>mkdir\<close> only for a path that \<^verbatim>\<open>Path.exists\<close> reports
  absent: where every service directory and every \<^verbatim>\<open>published\<close> directory exists the
  step is a no-op without error, on any filesystem. Step 3 calls \<^verbatim>\<open>symlink_to\<close> only for
  names the service directory does not list: where every existing preview name is managed
  in every service directory that exists the step is a no-op without error. On a working
  directory of real directories whose service paths are directories or absent and whose
  \<^verbatim>\<open>published\<close> paths are no symbolic links, both steps return without error and change
  no entry that was there.
\<close>

theorem creation_guarded:
  assumes sc: "list_all single_component (known_subdirs d)"
  shows
  "((\<forall>s\<in>set (known_subdirs d).
        exists fs (rootdir d @ [s]) \<and> exists fs (published_dir (rootdir d @ [s]))) \<longrightarrow>
      add_missing_subdirs d fs = Inr fs) \<and>
   ((\<forall>s\<in>set (known_subdirs d). exists fs (rootdir d @ [s]) \<longrightarrow>
        set (remdups (map name (existing_small d fs))) \<subseteq> set (managed_small fs (rootdir d @ [s]))) \<longrightarrow>
      add_new_small_files d fs = Inr fs) \<and>
   (real_dir fs (rootdir d) \<and> services_ok fs (rootdir d) (known_subdirs d) \<and>
    no_orphans fs (rootdir d) (known_subdirs d) \<longrightarrow>
      (\<exists>fs1. add_missing_subdirs d fs = Inr fs1 \<and>
         (\<forall>q. lookup fs1 q = with_dirs (lookup fs) (subdir_paths (rootdir d) (known_subdirs d)) q) \<and>
         (\<forall>q. lookup fs q \<noteq> None \<longrightarrow> lookup fs1 q = lookup fs q)) \<and>
      (\<exists>fs3. add_new_small_files d fs = Inr fs3 \<and>
         (\<forall>q. lookup fs q \<noteq> None \<longrightarrow> lookup fs3 q = lookup fs q)))"
proof (intro conjI impI)
  assume "\<forall>s\<in>set (known_subdirs d).
        exists fs (rootdir d @ [s]) \<and> exists fs (published_dir (rootdir d @ [s]))"
  then show "add_missing_subdirs d fs = Inr fs"
    unfolding add_missing_subdirs_def by (rule add_missing_subdirs_all_exist)
next
  assume a: "\<forall>s\<in>set (known_subdirs d). exists fs (rootdir d @ [s]) \<longrightarrow>
        set (remdups (map name (existing_small d fs))) \<subseteq> set (managed_small fs (rootdir d @ [s]))"
  have "\<forall>s\<in>set (known_subdirs d). exists fs (rootdir d @ [s]) \<longrightarrow>
      new_names fs (remdups (map name (existing_small d fs))) (rootdir d @ [s]) = []"
  proof (intro ballI impI)
    fix s assume "s \<in> set (known_subdirs d)" "exists fs (rootdir d @ [s])"
    with a have "set (remdups (map name (existing_small d fs))) \<subseteq> set (managed_small fs (rootdir d @ [s]))"
      by blast
    then have "set (new_names fs (remdups (map name (existing_small d fs))) (rootdir d @ [s])) = {}"
      unfolding set_new_names by blast
    then show "new_names fs (remdups (map name (existing_small d fs))) (rootdir d @ [s]) = []"
      by simp
  qed
  then show "add_new_small_files d fs = Inr fs"
    unfolding add_new_small_files_def by (rule add_new_small_files_loop_none)
next
  assume a: "real_dir fs (rootdir d) \<and> services_ok fs (rootdir d) (known_subdirs d) \<and>
    no_orphans fs (rootdir d) (known_subdirs d)"
  then have r: "real_dir fs (rootdir d)" and ok: "services_ok fs (rootdir d) (known_subdirs d)"
    and no: "no_orphans fs (rootdir d) (known_subdirs d)" by simp_all
  from add_missing_subdirs_closed [OF r ok no] obtain fs1 where
    f1: "add_missing_subdirs_loop (rootdir d) (known_subdirs d) fs = Inr fs1"
    and l1: "lookup fs1 = with_dirs (lookup fs) (subdir_paths (rootdir d) (known_subdirs d))"
    by blast
  have "\<forall>q. lookup fs q \<noteq> None \<longrightarrow> lookup fs1 q = lookup fs q"
    using with_dirs_keeps [OF l1] by blast
  with f1 l1 show "\<exists>fs1. add_missing_subdirs d fs = Inr fs1 \<and>
         (\<forall>q. lookup fs1 q = with_dirs (lookup fs) (subdir_paths (rootdir d) (known_subdirs d)) q) \<and>
         (\<forall>q. lookup fs q \<noteq> None \<longrightarrow> lookup fs1 q = lookup fs q)"
    by (simp add: add_missing_subdirs_def)
  from add_new_small_files_keeps [OF r ok]
  show "\<exists>fs3. add_new_small_files d fs = Inr fs3 \<and>
         (\<forall>q. lookup fs q \<noteq> None \<longrightarrow> lookup fs3 q = lookup fs q)" .
qed

theorem creation_guarded_witness:
  "list_all single_component (known_subdirs dir_c3w) \<and>
   list_all (\<lambda>s. exists fs_c3w (rootdir dir_c3w @ [s]) \<and>
       exists fs_c3w (published_dir (rootdir dir_c3w @ [s]))) (known_subdirs dir_c3w) \<and>
   (real_dir fs_c3w (rootdir dir_c3w) \<and> services_ok fs_c3w (rootdir dir_c3w) (known_subdirs dir_c3w) \<and>
    no_orphans fs_c3w (rootdir dir_c3w) (known_subdirs dir_c3w)) \<and>
   add_missing_subdirs dir_c3w fs_c3w = Inr fs_c3w \<and>
   add_new_small_files dir_c3w fs_c3w = Inr fs_c3w"
proof -
  have sc: "list_all single_component (known_subdirs dir_c3w)" by code_simp
  have h1: "\<forall>s\<in>set (known_subdirs dir_c3w).
        exists fs_c3w (rootdir dir_c3w @ [s]) \<and> exists fs_c3w (published_dir (rootdir dir_c3w @ [s]))"
    by code_simp
  have h2: "\<forall>s\<in>set (known_subdirs dir_c3w). exists fs_c3w (rootdir dir_c3w @ [s]) \<longrightarrow>
        set (remdups (map name (existing_small dir_c3w fs_c3w)))
          \<subseteq> set (managed_small fs_c3w (rootdir dir_c3w @ [s]))"
    by code_simp
  have h3: "real_dir fs_c3w (rootdir dir_c3w) \<and>
    services_ok fs_c3w (rootdir dir_c3w) (known_subdirs dir_c3w) \<and>
    no_orphans fs_c3w (rootdir dir_c3w) (known_subdirs dir_c3w)"
    by code_simp
  note t = creation_guarded [OF sc, of fs_c3w]
  have a: "add_missing_subdirs dir_c3w fs_c3w = Inr fs_c3w"
    by (rule t [THEN conjunct1, THEN mp, OF h1])
  have b: "add_new_small_files dir_c3w fs_c3w = Inr fs_c3w"
    by (rule t [THEN conjunct2, THEN conjunct1, THEN mp, OF h2])
  from h1 have h1': "list_all (\<lambda>s. exists fs_c3w (rootdir dir_c3w @ [s]) \<and>
       exists fs_c3w (published_dir (rootdir dir_c3w @ [s]))) (known_subdirs dir_c3w)"
    by (simp only: list_all_iff)
  show ?thesis by (rule conjI [OF sc conjI [OF h1' conjI [OF h3 conjI [OF a b]]]])
qed

subsection \<open>The stages of a run\<close>

lemma bind_r_Inr: "bind_r r f = Inr y \<longleftrightarrow> (\<exists>x. r = Inr x \<and> f x = Inr y)"
  by (cases r) (simp_all add: bind_r_def)


lemma files_writtenD:
  assumes "files_written W fs fs'"
  obtains "lookup fs' q = lookup fs q"
  | t where "q \<in> W" "lookup fs q = None \<or> (\<exists>t. lookup fs q = Some (File t))"
      "lookup fs' q = Some (File t)"
  using assms unfolding files_written_def by blast






lemma files_written_None:
  assumes "files_written W fs fs'" "lookup fs' q = None"
  shows "lookup fs q = None"
  by (rule files_writtenD [OF assms(1), of q]) (use assms(2) in auto)

lemma files_written_not_None:
  assumes "files_written W fs fs'" "lookup fs q \<noteq> None"
  shows "lookup fs' q \<noteq> None"
  by (rule files_writtenD [OF assms(1), of q]) (use assms(2) in auto)





lemma fixup_run_Inr:
  "fixup_run dt resize git_add root subs (fs, g) = Inr (fs', g') \<longleftrightarrow>
    (\<exists>fs1 fs2 fs3 fs4.
       add_missing_subdirs (Directory fs root subs) fs = Inr fs1 \<and>
       create_missing_small_images dt resize (Directory fs root subs) fs1 = Inr fs2 \<and>
       add_new_small_files (Directory fs root subs) fs2 = Inr fs3 \<and>
       fixup_source_photos_links (Directory fs root subs) fs3 = Inr fs4 \<and>
       fixup_published_links (Directory fs root subs) fs4 = Inr fs' \<and>
       add_files_to_repository git_add (Directory fs root subs) fs' g = Inr g')"
  by (auto simp: fixup_run_def action_fixup_def bind_r_Inr)

lemma Directory_simps [simp]:
  "rootdir (Directory fs root subs) = root" "known_subdirs (Directory fs root subs) = subs"
  by (simp_all add: Directory_def)











lemma add_files_loop_total:
  assumes "\<forall>p g. \<exists>g'. git_add p g = Inr g'"
  shows "\<exists>g'. add_files_loop git_add fs ps g = Inr g'"
proof (induction ps arbitrary: g)
  case Nil
  then show ?case by simp
next
  case (Cons p ps)
  from assms obtain g1 where "git_add p g = Inr g1" by blast
  with Cons [of g1] Cons [of g] show ?case by (simp add: bind_r_def)
qed


lemma pub_path_length:
  "length (published_dir (root @ [s]) @ [n]) = length root + 3"
  by (simp add: published_dir_def)




subsection \<open>The links after a run\<close>








end
